theory Spec2Isabelle
  imports Main "HOL-Library.Word"
begin

section \<open>The C environment of testlib.c\<close>

text \<open>
  The library is a handful of C procedures whose only effects are console output, calls to
  \<^verbatim>\<open>malloc\<close>/\<^verbatim>\<open>free\<close>, stores into freshly allocated blocks and
  \<^verbatim>\<open>exit\<close>. The model threads a process state through every call. The pieces of
  the C library the code relies on (the allocator, \<^verbatim>\<open>printf\<close> conversions and the
  limit on the length of what one call of \<^verbatim>\<open>printf\<close> can print, the limits of
  \<^verbatim>\<open>int\<close> and \<^verbatim>\<open>size_t\<close>) are modelled after the C standard and POSIX for an
  LP64 platform: \<^verbatim>\<open>int\<close> has 32 bits, \<^verbatim>\<open>size_t\<close> has 64.
  \<^verbatim>\<open>TestLib_print_clock_diff\<close> and \<^verbatim>\<open>TestLib_print_cycles_per_round\<close> compute
  and print floating-point values and are not part of the model.
\<close>

type_synonym byte = "8 word"

definition INT_MAX :: int where
  "INT_MAX = 2 ^ 31 - 1"

definition INT_MIN :: int where
  "INT_MIN = - (2 ^ 31)"

definition SIZE_MODULUS :: nat where
  "SIZE_MODULUS = 2 ^ 64"

text \<open>\<^verbatim>\<open>EXIT_FAILURE\<close> of \<^verbatim>\<open>stdlib.h\<close>; 1 on the usual C libraries.\<close>

definition EXIT_FAILURE :: int where
  "EXIT_FAILURE = 1"

text \<open>
  Arithmetic in \<^verbatim>\<open>int\<close>: a result outside the range of the type is undefined
  behaviour (\<open>None\<close>). Conversion of an \<^verbatim>\<open>int\<close> to \<^verbatim>\<open>size_t\<close> is
  reduction modulo \<open>2 ^ 64\<close>.
\<close>

definition c_int :: "int \<Rightarrow> int option" where
  "c_int x = (if INT_MIN \<le> x \<and> x \<le> INT_MAX then Some x else None)"

definition to_size_t :: "int \<Rightarrow> nat" where
  "to_size_t x = nat (x mod int SIZE_MODULUS)"

subsection \<open>Memory\<close>

text \<open>
  A pointer is null or names a block and an offset into it. The heap is the list of all
  blocks ever allocated, a freed block being \<open>None\<close>; a new block gets the next index, so it
  is distinct from every block that exists. \<open>avail\<close> is the allocator's answer to the coming
  calls of \<^verbatim>\<open>malloc\<close> (\<open>False\<close>, or no answer left: the call returns
  \<^verbatim>\<open>NULL\<close>), \<open>junk\<close> the indeterminate content of a fresh block, and \<open>written\<close>
  the text sent to the two console streams, one entry per call, oldest first. \<open>cutoff\<close> is
  the number of characters that a call of \<^verbatim>\<open>printf\<close> sends before it fails, for a
  text that is too long for one call.
\<close>

datatype ptr = Null | Ptr nat int

datatype stream = Stdout | Stderr

record process =
  heap :: "byte list option list"
  avail :: "bool list"
  junk :: "nat \<Rightarrow> byte"
  written :: "(stream \<times> string) list"
  cutoff :: "string \<Rightarrow> nat"

text \<open>
  A call returns to its caller, or ends the process through \<^verbatim>\<open>exit\<close> with a status,
  or runs into undefined behaviour (an access outside a live block or through
  \<^verbatim>\<open>NULL\<close>, a signed overflow), after which C promises nothing.
\<close>

datatype 'a result = Return 'a process | Exit int process | Undefined

definition ptr_add :: "ptr \<Rightarrow> int \<Rightarrow> ptr" where
  "ptr_add p k = (case p of Null \<Rightarrow> Null | Ptr b off \<Rightarrow> Ptr b (off + k))"

definition malloc :: "nat \<Rightarrow> process \<Rightarrow> ptr \<times> process" where
  "malloc n s =
     (case avail s of
        [] \<Rightarrow> (Null, s)
      | ok # rest \<Rightarrow>
          if ok
          then (Ptr (length (heap s)) 0,
                s\<lparr>heap := heap s @ [Some (map (junk s) [0..<n])], avail := rest\<rparr>)
          else (Null, s\<lparr>avail := rest\<rparr>))"

definition free :: "ptr \<Rightarrow> process \<Rightarrow> process option" where
  "free p s =
     (case p of
        Null \<Rightarrow> Some s
      | Ptr b off \<Rightarrow>
          if b < length (heap s) \<and> heap s ! b \<noteq> None \<and> off = 0
          then Some (s\<lparr>heap := (heap s)[b := None]\<rparr>)
          else None)"

definition load_bytes :: "ptr \<Rightarrow> nat \<Rightarrow> process \<Rightarrow> byte list option" where
  "load_bytes p n s =
     (case p of
        Null \<Rightarrow> None
      | Ptr b off \<Rightarrow>
          if b < length (heap s) \<and> 0 \<le> off
          then (case heap s ! b of
                  None \<Rightarrow> None
                | Some bs \<Rightarrow>
                    if nat off + n \<le> length bs then Some (take n (drop (nat off) bs))
                    else None)
          else None)"

definition load :: "ptr \<Rightarrow> process \<Rightarrow> byte option" where
  "load p s = (case load_bytes p 1 s of Some [v] \<Rightarrow> Some v | _ \<Rightarrow> None)"

definition store_bytes :: "ptr \<Rightarrow> byte list \<Rightarrow> process \<Rightarrow> process option" where
  "store_bytes p vs s =
     (case p of
        Null \<Rightarrow> None
      | Ptr b off \<Rightarrow>
          if b < length (heap s) \<and> 0 \<le> off
          then (case heap s ! b of
                  None \<Rightarrow> None
                | Some bs \<Rightarrow>
                    if nat off + length vs \<le> length bs
                    then Some (s\<lparr>heap := (heap s)
                           [b := Some (take (nat off) bs @ vs @ drop (nat off + length vs) bs)]\<rparr>)
                    else None)
          else None)"

definition store :: "ptr \<Rightarrow> byte \<Rightarrow> process \<Rightarrow> process option" where
  "store p v s = store_bytes p [v] s"

text \<open>The string a \<^verbatim>\<open>char *\<close> denotes: the bytes up to the first NUL of its block.\<close>

definition c_str :: "ptr \<Rightarrow> process \<Rightarrow> string option" where
  "c_str p s =
     (case p of
        Null \<Rightarrow> None
      | Ptr b off \<Rightarrow>
          if b < length (heap s) \<and> 0 \<le> off
          then (case heap s ! b of
                  None \<Rightarrow> None
                | Some bs \<Rightarrow>
                    if 0 \<in> set (drop (nat off) bs)
                    then Some (map (\<lambda>w. char_of (unat w))
                                 (takeWhile (\<lambda>w. w \<noteq> 0) (drop (nat off) bs)))
                    else None)
          else None)"

subsection \<open>Console output and conversions\<close>

text \<open>
  \<^verbatim>\<open>fprintf\<close> and \<^verbatim>\<open>printf\<close> return the number of characters they have sent,
  an \<^verbatim>\<open>int\<close>. A call whose text, conversions expanded, has more than
  \<^verbatim>\<open>INT_MAX\<close> characters cannot return that number: it fails
  (\<^verbatim>\<open>EOVERFLOW\<close>), and how much of the text has reached the stream by then, if any,
  is up to the C library. No caller in this file looks at the result, so the program goes on
  after a call that failed. The second argument is the text with the conversions expanded.
\<close>

definition fprintf :: "stream \<Rightarrow> string \<Rightarrow> process \<Rightarrow> process" where
  "fprintf f txt s =
     (if int (length txt) \<le> INT_MAX
      then s\<lparr>written := written s @ [(f, txt)]\<rparr>
      else s\<lparr>written := written s @ [(f, take (cutoff s txt) txt)]\<rparr>)"

definition printf :: "string \<Rightarrow> process \<Rightarrow> process" where
  "printf txt s = fprintf Stdout txt s"

definition digit :: "nat \<Rightarrow> char" where
  "digit d = ''0123456789abcdef'' ! d"

text \<open>\<^verbatim>\<open>%u\<close> and \<^verbatim>\<open>%d\<close>: decimal, no padding.\<close>

function show_nat :: "nat \<Rightarrow> string" where
  "show_nat n = (if n < 10 then [digit n] else show_nat (n div 10) @ [digit (n mod 10)])"
  by pat_completeness auto
termination
  by (relation "measure id") auto

declare show_nat.simps [simp del]

definition show_int :: "int \<Rightarrow> string" where
  "show_int x = (if x < 0 then CHR ''-'' # show_nat (nat (- x)) else show_nat (nat x))"

text \<open>\<^verbatim>\<open>%02x\<close> of a byte: two lowercase hexadecimal digits, high nibble first.\<close>

definition fmt_02x :: "byte \<Rightarrow> string" where
  "fmt_02x v = [digit (unat v div 16), digit (unat v mod 16)]"

text \<open>\<^verbatim>\<open>sprintf(p, "%02x", v)\<close> stores the two digits and a terminating NUL at \<open>p\<close>.\<close>

definition sprintf_02x :: "ptr \<Rightarrow> byte \<Rightarrow> process \<Rightarrow> process option" where
  "sprintf_02x p v s = store_bytes p (map of_char (fmt_02x v) @ [0]) s"

definition newline :: string where
  "newline = [CHR 0x0A]"

section \<open>The procedures of testlib.c\<close>

subsection \<open>print_buf\<close>

function print_buf_loop :: "ptr \<Rightarrow> nat \<Rightarrow> ptr \<Rightarrow> int \<Rightarrow> process \<Rightarrow> process option" where
  "print_buf_loop buf sz str i s =
     (if to_size_t i < sz then
        (case c_int (2 * i) of
           None \<Rightarrow> None
         | Some k \<Rightarrow>
        (case load (ptr_add buf i) s of
           None \<Rightarrow> None
         | Some v \<Rightarrow>
        (case sprintf_02x (ptr_add str k) v s of
           None \<Rightarrow> None
         | Some s' \<Rightarrow>
        (case c_int (i + 1) of
           None \<Rightarrow> None
         | Some i' \<Rightarrow> print_buf_loop buf sz str i' s'))))
      else Some s)"
  by pat_completeness auto
termination
  by (relation "measure (\<lambda>(buf, sz, str, i, s). nat (INT_MAX - i))")
     (auto simp: c_int_def split: if_splits)

declare print_buf_loop.simps [simp del]

definition print_buf :: "ptr \<Rightarrow> nat \<Rightarrow> string \<Rightarrow> int \<Rightarrow> process \<Rightarrow> unit result" where
  "print_buf buf sz file line s =
     (let (str, s1) = malloc ((2 * sz + 1) mod SIZE_MODULUS) s in
      case print_buf_loop buf sz str 0 s1 of
        None \<Rightarrow> Undefined
      | Some s2 \<Rightarrow>
     (case store (ptr_add str (int ((2 * sz) mod SIZE_MODULUS))) 0 s2 of
        None \<Rightarrow> Undefined
      | Some s3 \<Rightarrow>
     (case c_str str s3 of
        None \<Rightarrow> Undefined
      | Some hex \<Rightarrow>
          Return () (printf (file @ '':'' @ show_int line @ '': '' @ hex @ newline) s3))))"

subsection \<open>TestLib_compare_and_print\<close>

text \<open>The first loop renders both buffers; the second compares them.\<close>

function compare_and_print_loop1 ::
  "ptr \<Rightarrow> ptr \<Rightarrow> ptr \<Rightarrow> ptr \<Rightarrow> int \<Rightarrow> int \<Rightarrow> process \<Rightarrow> process option" where
  "compare_and_print_loop1 reference output str str_ref sz i s =
     (if i < sz then
        (case c_int (2 * i) of
           None \<Rightarrow> None
         | Some k \<Rightarrow>
        (case load (ptr_add output i) s of
           None \<Rightarrow> None
         | Some v \<Rightarrow>
        (case sprintf_02x (ptr_add str k) v s of
           None \<Rightarrow> None
         | Some s1 \<Rightarrow>
        (case load (ptr_add reference i) s1 of
           None \<Rightarrow> None
         | Some r \<Rightarrow>
        (case sprintf_02x (ptr_add str_ref k) r s1 of
           None \<Rightarrow> None
         | Some s2 \<Rightarrow>
        (case c_int (i + 1) of
           None \<Rightarrow> None
         | Some i' \<Rightarrow> compare_and_print_loop1 reference output str str_ref sz i' s2))))))
      else Some s)"
  by pat_completeness auto
termination
  by (relation "measure (\<lambda>(reference, output, str, str_ref, sz, i, s). nat (sz - i))")
     (auto simp: c_int_def split: if_splits)

declare compare_and_print_loop1.simps [simp del]

function compare_and_print_loop2 ::
  "string \<Rightarrow> ptr \<Rightarrow> ptr \<Rightarrow> int \<Rightarrow> int \<Rightarrow> process \<Rightarrow> unit result" where
  "compare_and_print_loop2 txt reference output sz i s =
     (if i < sz then
        (case load (ptr_add output i) s of
           None \<Rightarrow> Undefined
         | Some v \<Rightarrow>
        (case load (ptr_add reference i) s of
           None \<Rightarrow> Undefined
         | Some r \<Rightarrow>
            if v \<noteq> r
            then Exit EXIT_FAILURE
                   (fprintf Stderr
                      (''[test] reference '' @ txt @ '' and expected '' @ txt @
                       '' differ at byte '' @ show_int i @ newline) s)
            else (case c_int (i + 1) of
                    None \<Rightarrow> Undefined
                  | Some i' \<Rightarrow> compare_and_print_loop2 txt reference output sz i' s)))
      else Return () s)"
  by pat_completeness auto
termination
  by (relation "measure (\<lambda>(txt, reference, output, sz, i, s). nat (sz - i))")
     (auto simp: c_int_def split: if_splits)

declare compare_and_print_loop2.simps [simp del]

definition TestLib_compare_and_print ::
  "string \<Rightarrow> ptr \<Rightarrow> ptr \<Rightarrow> int \<Rightarrow> process \<Rightarrow> unit result" where
  "TestLib_compare_and_print txt reference output sz s =
     (case c_int (2 * sz) of
        None \<Rightarrow> Undefined
      | Some d \<Rightarrow>
     (case c_int (d + 1) of
        None \<Rightarrow> Undefined
      | Some n \<Rightarrow>
     (let (str, s1) = malloc (to_size_t n) s;
          (str_ref, s2) = malloc (to_size_t n) s1 in
      case compare_and_print_loop1 reference output str str_ref sz 0 s2 of
        None \<Rightarrow> Undefined
      | Some s3 \<Rightarrow>
     (case store (ptr_add str d) 0 s3 of
        None \<Rightarrow> Undefined
      | Some s4 \<Rightarrow>
     (case store (ptr_add str_ref d) 0 s4 of
        None \<Rightarrow> Undefined
      | Some s5 \<Rightarrow>
     (case c_str str_ref s5 of
        None \<Rightarrow> Undefined
      | Some hex_ref \<Rightarrow>
     (let s6 = printf (''[test] expected output '' @ txt @ '' is '' @ hex_ref @ newline) s5 in
      case c_str str s6 of
        None \<Rightarrow> Undefined
      | Some hex \<Rightarrow>
     (let s7 = printf (''[test] computed output '' @ txt @ '' is '' @ hex @ newline) s6 in
      case compare_and_print_loop2 txt reference output sz 0 s7 of
        Undefined \<Rightarrow> Undefined
      | Exit code s8 \<Rightarrow> Exit code s8
      | Return _ s8 \<Rightarrow>
     (let s9 = printf (''[test] '' @ txt @ '' is a success'' @ newline) s8 in
      case free str s9 of
        None \<Rightarrow> Undefined
      | Some s10 \<Rightarrow>
     (case free str_ref s10 of
        None \<Rightarrow> Undefined
      | Some s11 \<Rightarrow> Return () s11))))))))))"

subsection \<open>TestLib_touch and the scalar checks\<close>

definition TestLib_touch :: "32 word \<Rightarrow> process \<Rightarrow> unit result" where
  "TestLib_touch x s = Return () s"











subsection \<open>TestLib_unsafe_malloc and TestLib_perr\<close>

definition TestLib_unsafe_malloc :: "nat \<Rightarrow> process \<Rightarrow> ptr result" where
  "TestLib_unsafe_malloc sz s =
     (let (memblob, s1) = malloc sz s in
      if memblob = Null
      then Exit EXIT_FAILURE (printf ('' WARNING : malloc failed in tests !'' @ newline) s1)
      else Return memblob s1)"

definition TestLib_perr :: "32 word \<Rightarrow> process \<Rightarrow> unit result" where
  "TestLib_perr err_code s =
     Return () (printf (''Got error code '' @ show_nat (unat err_code) @ ''.'' @ newline) s)"

subsection \<open>The hexadecimal rendering\<close>

text \<open>
  The rendering of a buffer: the \<^verbatim>\<open>%02x\<close> conversions of its bytes, one after the
  other. \<open>hex_value\<close> reads a lowercase hexadecimal digit back.
\<close>

definition hex_string :: "byte list \<Rightarrow> string" where
  "hex_string bs = concat (map fmt_02x bs)"

definition hex_value :: "char \<Rightarrow> nat option" where
  "hex_value c =
     (if c \<in> set ''0123456789abcdef''
      then Some (length (takeWhile (\<lambda>d. d \<noteq> c) ''0123456789abcdef''))
      else None)"

text \<open>
  What follows the digits written so far in a block of \<open>2 * n + 1\<close> bytes while the
  rendering loop runs: the NUL of the last conversion, or, before the first one, the
  untouched last byte.
\<close>

definition tail_after :: "nat \<Rightarrow> nat \<Rightarrow> byte list \<Rightarrow> byte list" where
  "tail_after i n c = (if i < n then [0] else drop (2 * n) c)"

text \<open>The message of the comparison loop for a mismatch at index \<open>k\<close>.\<close>

definition differ_msg :: "string \<Rightarrow> nat \<Rightarrow> string" where
  "differ_msg txt k = ''[test] reference '' @ txt @ '' and expected '' @ txt @
                       '' differ at byte '' @ show_int (int k) @ newline"

text \<open>
  The process once \<^verbatim>\<open>TestLib_compare_and_print\<close> has printed its two renderings: both
  strings are in memory, two answers of the allocator are used up, and the two lines have
  been passed to \<^verbatim>\<open>printf\<close>.
\<close>

definition rendered :: "string \<Rightarrow> byte list \<Rightarrow> byte list \<Rightarrow> bool list \<Rightarrow> process \<Rightarrow> process" where
  "rendered txt ref out rest s =
     printf (''[test] computed output '' @ txt @ '' is '' @ hex_string out @ newline)
       (printf (''[test] expected output '' @ txt @ '' is '' @ hex_string ref @ newline)
          (s\<lparr>heap := heap s @ [Some (map of_char (hex_string out) @ [0]),
                               Some (map of_char (hex_string ref) @ [0])],
            avail := rest\<rparr>))"

text \<open>The blocks that are allocated and not freed.\<close>

definition live_blocks :: "process \<Rightarrow> nat list" where
  "live_blocks s = filter (\<lambda>b. heap s ! b \<noteq> None) [0..<length (heap s)]"

text \<open>Whether a call came back to its caller, and the process it left behind.\<close>

definition returned :: "'a result \<Rightarrow> bool" where
  "returned r = (case r of Return _ _ \<Rightarrow> True | _ \<Rightarrow> False)"

definition state_of :: "'a result \<Rightarrow> process option" where
  "state_of r = (case r of Return _ s \<Rightarrow> Some s | Exit _ s \<Rightarrow> Some s | Undefined \<Rightarrow> None)"

subsection \<open>Sample processes\<close>

text \<open>A process with an empty heap that has printed nothing and whose allocator is exhausted.\<close>

definition idle :: process where
  "idle = \<lparr>heap = [], avail = [], junk = (\<lambda>_. 0), written = [], cutoff = (\<lambda>_. 0)\<rparr>"

text \<open>
  A process holding three buffers of three bytes, the second equal to the first, the third
  different at index 1, whose allocator grants the next two requests.
\<close>

definition sample :: process where
  "sample = \<lparr>heap = [Some [0x00, 0xAB, 0x7F], Some [0x00, 0xAB, 0x7F], Some [0x00, 0xAC, 0x7F]],
             avail = [True, True], junk = (\<lambda>_. 0xEE), written = [], cutoff = (\<lambda>_. 0)\<rparr>"

text \<open>
  A process holding two buffers of \<open>2 ^ 30\<close> bytes, the first all zero, the second filled with
  a given byte, whose allocator grants the next two requests.
\<close>

definition huge :: "byte \<Rightarrow> process" where
  "huge v = \<lparr>heap = [Some (replicate (2 ^ 30) 0), Some (replicate (2 ^ 30) v)],
             avail = [True, True], junk = (\<lambda>_. 0), written = [], cutoff = (\<lambda>_. 0)\<rparr>"

text \<open>
  A process holding one buffer of \<open>2 ^ 30 + 1\<close> zero bytes, whose allocator grants the next
  request.
\<close>

definition vast :: process where
  "vast = \<lparr>heap = [Some (replicate (2 ^ 30 + 1) 0)],
           avail = [True], junk = (\<lambda>_. 0), written = [], cutoff = (\<lambda>_. 0)\<rparr>"

section \<open>Memory and conversion lemmas\<close>

lemma take1_drop: "k < length d \<Longrightarrow> take (Suc 0) (drop k d) = [d ! k]"
  by (simp add: take_Suc_conv_app_nth)

lemma load_in_bytes:
  assumes "load_bytes p n s = Some bs" "0 \<le> i" "nat i < n"
  shows "load (ptr_add p i) s = Some (bs ! nat i)"
  using assms
  by (auto simp: load_def load_bytes_def ptr_add_def nat_add_distrib take1_drop
      split: ptr.splits option.splits if_splits)

lemma load_bytes_length: "load_bytes p n s = Some bs \<Longrightarrow> length bs = n"
  by (auto simp: load_bytes_def split: ptr.splits option.splits if_splits)

lemma load_bytes_update_other:
  assumes "load_bytes p n s = Some bs" "\<And>off. p \<noteq> Ptr b off"
  shows "load_bytes p n (s\<lparr>heap := (heap s)[b := x]\<rparr>) = Some bs"
proof (cases p)
  case Null
  with assms show ?thesis by (simp add: load_bytes_def)
next
  case (Ptr bb off)
  with assms(2) have "bb \<noteq> b" by auto
  with assms(1) Ptr show ?thesis
    by (simp add: load_bytes_def split: if_splits)
qed

lemma to_size_t_small: "0 \<le> i \<Longrightarrow> i < 2 ^ 64 \<Longrightarrow> to_size_t i = nat i"
  by (simp add: to_size_t_def SIZE_MODULUS_def)

lemma unat_of_char: "unat (of_char c :: byte) = of_char c"
proof -
  have "unat (of_nat (of_char c) :: byte) = of_char c mod 2 ^ 8"
    by (simp add: unat_of_nat)
  then show ?thesis by (simp add: of_nat_of_char)
qed

lemma char_of_byte: "char_of (unat (of_char c :: byte)) = c"
  by (simp add: unat_of_char)

lemma of_char_byte_eq_0: "(of_char c :: byte) = 0 \<longleftrightarrow> c = CHR 0x00"
proof
  assume "(of_char c :: byte) = 0"
  then have "unat (of_char c :: byte) = 0" by simp
  then have "(of_char c :: nat) = 0" by (simp add: unat_of_char)
  moreover have "(of_char (CHR 0x00) :: nat) = 0" by simp
  ultimately have "(of_char c :: nat) = of_char (CHR 0x00)" by (simp only:)
  then show "c = CHR 0x00" by (rule of_char_eqI)
qed simp

lemma digit_in: "d < 16 \<Longrightarrow> digit d \<in> set ''0123456789abcdef''"
  unfolding digit_def by (rule nth_mem) simp

lemma digit_nz: "d < 16 \<Longrightarrow> (of_char (digit d) :: byte) \<noteq> 0"
  using digit_in [of d] by (auto simp: of_char_byte_eq_0)

lemma nibbles: "unat (v :: byte) div 16 < 16" "unat v mod 16 < 16"
proof -
  have "unat v < 2 ^ LENGTH(8)" by (rule unsigned_less)
  then show "unat v div 16 < 16" by simp
qed simp

lemma length_hex_string [simp]: "length (hex_string bs) = 2 * length bs"
  by (induction bs) (auto simp: hex_string_def fmt_02x_def)

lemma hex_string_Cons: "hex_string (v # bs) = fmt_02x v @ hex_string bs"
  by (simp add: hex_string_def)

lemma hex_string_nz: "0 \<notin> set (map of_char (hex_string bs) :: byte list)"
  by (induction bs) (auto simp: hex_string_def fmt_02x_def digit_nz nibbles)

lemma c_str_block:
  assumes "b < length (heap s)" "heap s ! b = Some (map of_char (hex_string bs) @ [0])"
  shows "c_str (Ptr b 0) s = Some (hex_string bs)"
proof -
  have "takeWhile (\<lambda>w. w \<noteq> 0) (map of_char (hex_string bs) @ [0 :: byte]) =
      map of_char (hex_string bs)"
  proof -
    have "\<And>x. x \<in> set (map of_char (hex_string bs) :: byte list) \<Longrightarrow> x \<noteq> 0"
      using hex_string_nz [of bs] by metis
    then have "takeWhile (\<lambda>w. w \<noteq> 0) (map of_char (hex_string bs) @ [0 :: byte]) =
        map of_char (hex_string bs) @ takeWhile (\<lambda>w. w \<noteq> 0) [0]"
      by (rule takeWhile_append2)
    then show ?thesis by simp
  qed
  with assms show ?thesis
    by (simp add: c_str_def comp_def char_of_byte del: set_map)
qed

lemma sprintf_02x_block:
  assumes "b < length (heap s)" "heap s ! b = Some c" "0 \<le> k" "nat k + 3 \<le> length c"
  shows "sprintf_02x (Ptr b k) v s =
    Some (s\<lparr>heap := (heap s)
      [b := Some (take (nat k) c @ map of_char (fmt_02x v) @ 0 # drop (nat k + 3) c)]\<rparr>)"
  using assms by (simp add: sprintf_02x_def store_bytes_def fmt_02x_def numeral_3_eq_3)

lemma load_bytes_block: "load_bytes p n s = Some bs \<Longrightarrow> \<exists>b off. p = Ptr b off \<and> b < length (heap s)"
  by (auto simp: load_bytes_def split: ptr.splits if_splits)

lemma load_bytes_heap_append:
  assumes "load_bytes p n s = Some bs" "heap s' = heap s @ xs"
  shows "load_bytes p n s' = Some bs"
  using assms
  by (auto simp: load_bytes_def nth_append split: ptr.splits if_splits option.splits)

lemma store_block:
  assumes "b < length (heap s)" "heap s ! b = Some c" "0 \<le> k" "nat k < length c"
  shows "store (Ptr b k) v s =
    Some (s\<lparr>heap := (heap s)[b := Some (take (nat k) c @ v # drop (nat k + 1) c)]\<rparr>)"
  using assms by (simp add: store_def store_bytes_def)

lemma sprintf_02x_last2:
  assumes "heap s = H @ [Some c, Some cr]" "0 \<le> k" "nat k + 3 \<le> length c"
  shows "sprintf_02x (Ptr (length H) k) v s =
    Some (s\<lparr>heap := H @ [Some (take (nat k) c @ map of_char (fmt_02x v) @ 0 # drop (nat k + 3) c),
                           Some cr]\<rparr>)"
  using assms by (simp add: sprintf_02x_block nth_append list_update_append)

lemma sprintf_02x_last1:
  assumes "heap s = H @ [Some c, Some cr]" "0 \<le> k" "nat k + 3 \<le> length cr"
  shows "sprintf_02x (Ptr (Suc (length H)) k) v s =
    Some (s\<lparr>heap := H @ [Some c,
       Some (take (nat k) cr @ map of_char (fmt_02x v) @ 0 # drop (nat k + 3) cr)]\<rparr>)"
  using assms by (simp add: sprintf_02x_block nth_append list_update_append)

lemma store_last2:
  assumes "heap s = H @ [Some c, Some cr]" "0 \<le> k" "nat k < length c"
  shows "store (Ptr (length H) k) v s =
    Some (s\<lparr>heap := H @ [Some (take (nat k) c @ v # drop (nat k + 1) c), Some cr]\<rparr>)"
  using assms by (simp add: store_block nth_append list_update_append)

lemma store_last1:
  assumes "heap s = H @ [Some c, Some cr]" "0 \<le> k" "nat k < length cr"
  shows "store (Ptr (Suc (length H)) k) v s =
    Some (s\<lparr>heap := H @ [Some c, Some (take (nat k) cr @ v # drop (nat k + 1) cr)]\<rparr>)"
  using assms by (simp add: store_block nth_append list_update_append)

lemma hex_tail:
  assumes "length bs = n" "length c = 2 * n + 1"
  shows "take (2 * n) (map of_char (hex_string bs) @ tail_after 0 n c) @ (0 :: byte) #
         drop (2 * n + 1) (map of_char (hex_string bs) @ tail_after 0 n c) =
         map of_char (hex_string bs) @ [0]"
proof (cases "n = 0")
  case True
  with assms show ?thesis by (simp add: tail_after_def hex_string_def)
next
  case False
  with assms show ?thesis by (simp add: tail_after_def)
qed

lemma store_nul_last2:
  assumes "heap s = H @ [Some (map of_char (hex_string bs) @ tail_after 0 n c), Some cr]"
    and "length bs = n" "length c = 2 * n + 1"
  shows "store (Ptr (length H) (int (2 * n))) 0 s =
    Some (s\<lparr>heap := H @ [Some (map of_char (hex_string bs) @ [0]), Some cr]\<rparr>)"
proof -
  let ?x = "map of_char (hex_string bs) @ tail_after 0 n c"
  have "length ?x = 2 * n + 1" using assms(2,3) by (auto simp: tail_after_def)
  then have "store (Ptr (length H) (int (2 * n))) 0 s =
    Some (s\<lparr>heap := H @ [Some (take (nat (int (2 * n))) ?x @ 0 # drop (nat (int (2 * n)) + 1) ?x),
       Some cr]\<rparr>)"
    by (intro store_last2 assms(1)) simp_all
  then show ?thesis
    using hex_tail [OF assms(2,3)] by (simp only: nat_int)
qed

lemma store_nul_last1:
  assumes "heap s = H @ [Some cr, Some (map of_char (hex_string bs) @ tail_after 0 n c)]"
    and "length bs = n" "length c = 2 * n + 1"
  shows "store (Ptr (Suc (length H)) (int (2 * n))) 0 s =
    Some (s\<lparr>heap := H @ [Some cr, Some (map of_char (hex_string bs) @ [0])]\<rparr>)"
proof -
  let ?x = "map of_char (hex_string bs) @ tail_after 0 n c"
  have "length ?x = 2 * n + 1" using assms(2,3) by (auto simp: tail_after_def)
  then have "store (Ptr (Suc (length H)) (int (2 * n))) 0 s =
    Some (s\<lparr>heap := H @ [Some cr,
       Some (take (nat (int (2 * n))) ?x @ 0 # drop (nat (int (2 * n)) + 1) ?x)]\<rparr>)"
    by (intro store_last1 assms(1)) simp_all
  then show ?thesis
    using hex_tail [OF assms(2,3)] by (simp only: nat_int)
qed

lemma find_upt_None: "find P [0..<n] = None \<longleftrightarrow> (\<forall>k<n. \<not> P k)"
  by (simp add: find_None_iff)

lemma find_upt_Some:
  assumes "find P [0..<n] = Some k"
  shows "k < n \<and> P k \<and> (\<forall>j<k. \<not> P j)"
  using assms by (auto simp: find_Some_iff)

lemma hex_value_digit: "d < 16 \<Longrightarrow> hex_value (digit d) = Some d"
proof -
  assume "d < 16"
  then have "d \<in> set [0..<16]" by simp
  then have "d \<in> {0, 1, 2, 3, 4, 5, 6, 7, 8, 9, 10, 11, 12, 13, 14, 15}"
    by (simp add: upt_rec numeral_eq_Suc) 
  then show ?thesis
    by (auto simp: hex_value_def digit_def)
qed

lemma hex_string_nth:
  assumes "i < length bs"
  shows "hex_string bs ! (2 * i) = digit (unat (bs ! i) div 16)"
    and "hex_string bs ! (2 * i + 1) = digit (unat (bs ! i) mod 16)"
  using assms
proof (induction bs arbitrary: i)
  case Nil
  { case 1 then show ?case by simp }
  { case 2 then show ?case by simp }
next
  case (Cons v bs)
  { case 1 then show ?case using Cons.IH(1) [of "i - 1"]
      by (cases i) (auto simp: hex_string_Cons fmt_02x_def) }
  { case 2 then show ?case using Cons.IH(2) [of "i - 1"]
      by (cases i) (auto simp: hex_string_Cons fmt_02x_def) }
qed

lemma hex_string_value:
  assumes "i < length bs"
  shows "hex_value (hex_string bs ! (2 * i)) = Some (unat (bs ! i) div 16)"
    and "hex_value (hex_string bs ! (2 * i + 1)) = Some (unat (bs ! i) mod 16)"
  using hex_string_nth [OF assms] by (simp_all add: hex_value_digit nibbles)

lemma live_blocks_freed: "heap s' = heap s @ [None, None] \<Longrightarrow> live_blocks s' = live_blocks s"
proof -
  assume h: "heap s' = heap s @ [None, None]"
  have "filter (\<lambda>b. heap s' ! b \<noteq> None) [0..<length (heap s)] =
        filter (\<lambda>b. heap s ! b \<noteq> None) [0..<length (heap s)]"
    by (rule filter_cong) (simp_all add: h nth_append)
  then show ?thesis by (simp add: live_blocks_def h nth_append)
qed

lemma live_blocks_grown:
  "heap s' = heap s @ [Some bs] \<Longrightarrow> live_blocks s' = live_blocks s @ [length (heap s)]"
proof -
  assume h: "heap s' = heap s @ [Some bs]"
  have "filter (\<lambda>b. heap s' ! b \<noteq> None) [0..<length (heap s)] =
        filter (\<lambda>b. heap s ! b \<noteq> None) [0..<length (heap s)]"
    by (rule filter_cong) (simp_all add: h nth_append)
  then show ?thesis by (simp add: live_blocks_def h nth_append)
qed

lemma hex_string_value_Suc:
  "i < length bs \<Longrightarrow> hex_value (hex_string bs ! Suc (2 * i)) = Some (unat (bs ! i) mod 16)"
  using hex_string_value(2) [of i bs] by simp

lemma sprintf_02x_Null [simp]: "sprintf_02x Null v s = None"
  by (simp add: sprintf_02x_def store_bytes_def)

lemma store_Null [simp]: "store Null v s = None"
  by (simp add: store_def store_bytes_def)

lemma ptr_add_Null [simp]: "ptr_add Null k = Null"
  by (simp add: ptr_add_def)

section \<open>Console output lemmas\<close>

text \<open>A call of \<^verbatim>\<open>printf\<close> touches nothing but the stream.\<close>

lemma fprintf_frame [simp]:
  "heap (fprintf f t s) = heap s" "avail (fprintf f t s) = avail s"
  "junk (fprintf f t s) = junk s" "cutoff (fprintf f t s) = cutoff s"
  by (simp_all add: fprintf_def)

lemma printf_frame [simp]:
  "heap (printf t s) = heap s" "avail (printf t s) = avail s"
  "junk (printf t s) = junk s" "cutoff (printf t s) = cutoff s"
  by (simp_all add: printf_def)

lemma fprintf_fits:
  "int (length t) \<le> INT_MAX \<Longrightarrow> fprintf f t s = s\<lparr>written := written s @ [(f, t)]\<rparr>"
  by (simp add: fprintf_def)

lemma printf_fits:
  "int (length t) \<le> INT_MAX \<Longrightarrow> printf t s = s\<lparr>written := written s @ [(Stdout, t)]\<rparr>"
  by (simp add: printf_def fprintf_fits)

lemma fprintf_written: "\<exists>e. written (fprintf f t s) = written s @ [(f, e)]"
  by (simp add: fprintf_def)

lemma printf_written: "\<exists>e. written (printf t s) = written s @ [(Stdout, e)]"
  by (simp add: printf_def fprintf_written)

text \<open>A number below \<open>10 ^ k\<close> has at most \<open>k\<close> decimal digits.\<close>

lemma length_show_nat: "n < 10 ^ Suc k \<Longrightarrow> length (show_nat n) \<le> Suc k"
proof (induction k arbitrary: n)
  case 0
  then show ?case by (simp add: show_nat.simps [of n])
next
  case (Suc k)
  show ?case
  proof (cases "n < 10")
    case True
    then show ?thesis by (simp add: show_nat.simps [of n])
  next
    case False
    from Suc.prems have "n div 10 < 10 ^ Suc k" by simp
    then have "length (show_nat (n div 10)) \<le> Suc k" by (rule Suc.IH)
    with False show ?thesis by (simp add: show_nat.simps [of n])
  qed
qed

lemma length_show_index: "k < 2 ^ 30 \<Longrightarrow> length (show_int (int k)) \<le> 10"
proof -
  assume "k < 2 ^ 30"
  then have "k < 10 ^ Suc 9" by simp
  then have "length (show_nat k) \<le> Suc 9" by (rule length_show_nat)
  then show ?thesis by (simp add: show_int_def)
qed

lemma length_show_u32: "length (show_nat (unat (w :: 32 word))) \<le> 10"
proof -
  have "unat w < 2 ^ LENGTH(32)" by (rule unsigned_less)
  then have "unat w < 10 ^ Suc 9" by simp
  then have "length (show_nat (unat w)) \<le> Suc 9" by (rule length_show_nat)
  then show ?thesis by simp
qed

lemma rendered_frame [simp]:
  "heap (rendered txt ref out rest s) =
     heap s @ [Some (map of_char (hex_string out) @ [0]), Some (map of_char (hex_string ref) @ [0])]"
  "avail (rendered txt ref out rest s) = rest"
  by (simp_all add: rendered_def)

lemma rendered_fits:
  assumes "int (length txt) + 2 * int (length ref) + 28 \<le> INT_MAX" "length out = length ref"
  shows "rendered txt ref out rest s =
     s\<lparr>heap := heap s @ [Some (map of_char (hex_string out) @ [0]),
                          Some (map of_char (hex_string ref) @ [0])],
       avail := rest,
       written := written s @
         [(Stdout, ''[test] expected output '' @ txt @ '' is '' @ hex_string ref @ newline),
          (Stdout, ''[test] computed output '' @ txt @ '' is '' @ hex_string out @ newline)]\<rparr>"
  using assms by (simp add: rendered_def printf_fits newline_def)

lemma length_differ_msg:
  "length (differ_msg txt k) = 2 * length txt + length (show_int (int k)) + 48"
  by (simp add: differ_msg_def newline_def)

section \<open>The rendering loop of print_buf\<close>

lemma print_buf_loop_run:
  assumes "b < length (heap s)" "heap s ! b = Some c" "length c = 2 * sz + 1"
    and "load_bytes buf sz s = Some bs" "\<And>off. buf \<noteq> Ptr b off"
    and "0 \<le> i" "nat i \<le> sz" "sz \<le> 2 ^ 30"
  shows "print_buf_loop buf sz (Ptr b 0) i s =
    Some (s\<lparr>heap := (heap s)
      [b := Some (take (2 * nat i) c @ map of_char (hex_string (drop (nat i) bs)) @
                  (if nat i < sz then [0] else drop (2 * sz) c))]\<rparr>)"
  using assms
proof (induction "sz - nat i" arbitrary: i s c)
  case 0
  then have "nat i = sz" by simp
  moreover have "length bs = sz" using 0 load_bytes_length by blast
  moreover have "to_size_t i = nat i" using 0 by (intro to_size_t_small) auto
  moreover have "(heap s)[b := Some c] = heap s" using 0 by (metis list_update_id)
  ultimately show ?case using 0
    by (simp add: print_buf_loop.simps [of _ _ _ i] hex_string_def)
next
  case (Suc m)
  then have lt: "nat i < sz" by simp
  have len: "length bs = sz" using Suc load_bytes_length by blast
  have ts: "to_size_t i = nat i" using Suc by (intro to_size_t_small) auto
  have ci: "c_int (2 * i) = Some (2 * i)" "c_int (i + 1) = Some (i + 1)"
    using Suc lt by (auto simp: c_int_def INT_MAX_def INT_MIN_def)
  have ld: "load (ptr_add buf i) s = Some (bs ! nat i)"
    using Suc lt by (intro load_in_bytes) auto
  let ?c1 = "take (nat (2 * i)) c @ map of_char (fmt_02x (bs ! nat i)) @
             0 # drop (nat (2 * i) + 3) c"
  let ?s1 = "s\<lparr>heap := (heap s)[b := Some ?c1]\<rparr>"
  have sp: "sprintf_02x (ptr_add (Ptr b 0) (2 * i)) (bs ! nat i) s = Some ?s1"
    using Suc lt by (simp add: ptr_add_def sprintf_02x_block)
  have IH: "print_buf_loop buf sz (Ptr b 0) (i + 1) ?s1 =
    Some (?s1\<lparr>heap := (heap ?s1)
      [b := Some (take (2 * nat (i + 1)) ?c1 @ map of_char (hex_string (drop (nat (i + 1)) bs)) @
                  (if nat (i + 1) < sz then [0] else drop (2 * sz) ?c1))]\<rparr>)"
    using Suc lt by (intro Suc.hyps(1)) (auto simp: load_bytes_update_other fmt_02x_def)
  have dr: "drop (nat i) bs = bs ! nat i # drop (nat (i + 1)) bs"
    using lt len Suc.prems by (simp add: Cons_nth_drop_Suc nat_add_distrib)
  have tk: "take (2 * nat (i + 1)) ?c1 = take (2 * nat i) c @ map of_char (fmt_02x (bs ! nat i))"
    using Suc.prems lt by (simp add: nat_add_distrib nat_mult_distrib fmt_02x_def)
  have tl: "(if nat (i + 1) < sz then [0] else drop (2 * sz) ?c1) = [0]"
  proof (cases "nat (i + 1) < sz")
    case True
    then show ?thesis by simp
  next
    case False
    with lt Suc.prems have "sz = nat i + 1" by (simp add: nat_add_distrib)
    with Suc.prems show ?thesis
      by (simp add: nat_add_distrib nat_mult_distrib fmt_02x_def)
  qed
  have IH': "print_buf_loop buf sz (Ptr b 0) (i + 1) ?s1 =
    Some (s\<lparr>heap := (heap s)[b := Some (take (2 * nat i) c @
       map of_char (fmt_02x (bs ! nat i)) @
       map of_char (hex_string (drop (nat (i + 1)) bs)) @ [0])]\<rparr>)"
    using IH unfolding tk tl by simp
  show ?case
    using lt
    by (simp add: print_buf_loop.simps [of _ _ _ i] ts ci ld sp IH' dr hex_string_Cons
        del: One_nat_def)
qed

lemma print_buf_run:
  assumes buf: "load_bytes buf sz s = Some bs"
    and av: "avail s = True # rest" and sz: "sz \<le> 2 ^ 30"
  shows "print_buf buf sz file line s =
    Return () (printf (file @ '':'' @ show_int line @ '': '' @ hex_string bs @ newline)
                 (s\<lparr>heap := heap s @ [Some (map of_char (hex_string bs) @ [0])],
                    avail := rest\<rparr>))"
proof -
  let ?b = "length (heap s)"
  let ?c = "map (junk s) [0..<2 * sz + 1]"
  let ?s1 = "s\<lparr>heap := heap s @ [Some ?c], avail := rest\<rparr>"
  have m: "(2 * sz + 1) mod SIZE_MODULUS = 2 * sz + 1" "(2 * sz) mod SIZE_MODULUS = 2 * sz"
    using sz by (simp_all add: SIZE_MODULUS_def)
  have ml: "malloc (2 * sz + 1) s = (Ptr ?b 0, ?s1)"
    using av by (simp add: malloc_def)
  have len: "length bs = sz" using buf by (rule load_bytes_length)
  have buf1: "load_bytes buf sz ?s1 = Some bs"
    using buf by (rule load_bytes_heap_append) simp
  have nb: "\<And>off. buf \<noteq> Ptr ?b off"
    using load_bytes_block [OF buf] by auto
  let ?x = "map of_char (hex_string bs) @ (if 0 < sz then [0] else drop (2 * sz) ?c)"
  let ?s2 = "?s1\<lparr>heap := (heap ?s1)[?b := Some ?x]\<rparr>"
  have lp: "print_buf_loop buf sz (Ptr ?b 0) 0 ?s1 = Some ?s2"
    using print_buf_loop_run [of ?b ?s1 ?c sz buf bs 0] buf1 nb sz by simp
  let ?s3 = "?s1\<lparr>heap := (heap ?s1)[?b := Some (map of_char (hex_string bs) @ [0])]\<rparr>"
  have xl: "length ?x = 2 * sz + 1" using len by simp
  have st: "store (ptr_add (Ptr ?b 0) (int (2 * sz))) 0 ?s2 = Some ?s3"
  proof (cases "sz = 0")
    case True
    with len have "hex_string bs = []" by (simp add: hex_string_def)
    with True len show ?thesis by (simp add: ptr_add_def store_block)
  next
    case False
    with len show ?thesis by (simp add: ptr_add_def store_block)
  qed
  have cs: "c_str (Ptr ?b 0) ?s3 = Some (hex_string bs)"
    by (rule c_str_block) simp_all
  have "print_buf buf sz file line s =
      Return () (printf (file @ '':'' @ show_int line @ '': '' @ hex_string bs @ newline) ?s3)"
    unfolding print_buf_def m ml
    by (simp only: Let_def prod.case lp option.case st cs)
  moreover have "?s3 = s\<lparr>heap := heap s @ [Some (map of_char (hex_string bs) @ [0])],
                          avail := rest\<rparr>"
    by simp
  ultimately show ?thesis
    by (simp only:)
qed

text \<open>
  The call has defined behaviour only if the allocator grants the request and no index
  doubles beyond \<^verbatim>\<open>INT_MAX\<close>.
\<close>

lemma print_buf_loop_Null:
  "to_size_t i < sz \<Longrightarrow> print_buf_loop buf sz Null i s = None"
  by (subst print_buf_loop.simps) (simp split: option.splits)

lemma print_buf_loop_big:
  assumes "2 ^ 30 < sz" "0 \<le> i" "i \<le> 2 ^ 30"
  shows "print_buf_loop buf sz str i s = None"
  using assms
proof (induction "nat (2 ^ 30 - i)" arbitrary: i s)
  case 0
  then have i: "i = 2 ^ 30" by simp
  have "to_size_t i < sz" using 0 by (simp add: i to_size_t_small)
  moreover have "c_int (2 * i) = None" by (simp add: i c_int_def INT_MAX_def)
  ultimately show ?case by (subst print_buf_loop.simps) simp
next
  case (Suc m)
  then have lt: "i < 2 ^ 30" by simp
  have ts: "to_size_t i < sz" using Suc.prems by (simp add: to_size_t_small)
  have ci: "c_int (i + 1) = Some (i + 1)"
    using Suc.prems lt by (simp add: c_int_def INT_MAX_def INT_MIN_def)
  have IH: "\<And>s'. print_buf_loop buf sz str (i + 1) s' = None"
    using Suc lt by (intro Suc.hyps(1)) auto
  show ?case
    by (subst print_buf_loop.simps) (simp add: ts ci IH split: option.splits)
qed

lemma print_buf_defined:
  assumes "print_buf buf n file line s \<noteq> Undefined"
  shows "(\<exists>rest. avail s = True # rest) \<and> n \<le> 2 ^ 30"
proof (rule ccontr)
  assume "\<not> ((\<exists>rest. avail s = True # rest) \<and> n \<le> 2 ^ 30)"
  then have "2 ^ 30 < n \<or> fst (malloc ((2 * n + 1) mod SIZE_MODULUS) s) = Null"
    by (cases "avail s") (auto simp: malloc_def)
  then have "print_buf buf n file line s = Undefined"
  proof
    assume "2 ^ 30 < n"
    then show ?thesis
      by (simp add: print_buf_def print_buf_loop_big split: prod.splits)
  next
    assume 2: "fst (malloc ((2 * n + 1) mod SIZE_MODULUS) s) = Null"
    obtain str s1 where m: "malloc ((2 * n + 1) mod SIZE_MODULUS) s = (str, s1)" by fastforce
    with 2 have m': "malloc ((2 * n + 1) mod SIZE_MODULUS) s = (Null, s1)" by simp
    show ?thesis
    proof (cases "n = 0")
      case True
      have l: "print_buf_loop buf 0 Null 0 s1 = Some s1"
        by (subst print_buf_loop.simps) (simp add: to_size_t_def)
      show ?thesis
        unfolding print_buf_def m' [unfolded True] True
        by (simp only: Let_def prod.case l option.case ptr_add_Null store_Null)
    next
      case False
      then have "to_size_t 0 < n" by (simp add: to_size_t_def)
      then have "print_buf_loop buf n Null 0 s1 = None" by (rule print_buf_loop_Null)
      then show ?thesis
        unfolding print_buf_def m' by (simp only: Let_def prod.case option.case)
    qed
  qed
  with assms show False by contradiction
qed

section \<open>The loops of TestLib_compare_and_print\<close>

lemma compare_and_print_loop1_run:
  assumes hp: "heap s = heap s0 @ [Some c, Some cr]"
    and "length c = 2 * nat sz + 1" "length cr = 2 * nat sz + 1"
    and "load_bytes reference (nat sz) s0 = Some ref" "load_bytes output (nat sz) s0 = Some out"
    and "0 \<le> i" "i \<le> sz" "sz < 2 ^ 30"
  shows "compare_and_print_loop1 reference output (Ptr (length (heap s0)) 0)
           (Ptr (Suc (length (heap s0))) 0) sz i s =
    Some (s\<lparr>heap := heap s0 @
      [Some (take (2 * nat i) c @ map of_char (hex_string (drop (nat i) out)) @ tail_after (nat i) (nat sz) c),
       Some (take (2 * nat i) cr @ map of_char (hex_string (drop (nat i) ref)) @ tail_after (nat i) (nat sz) cr)]\<rparr>)"
  using assms
proof (induction "nat (sz - i)" arbitrary: i s c cr)
  case 0
  then have eq: "i = sz" by simp
  have "length ref = nat sz" "length out = nat sz"
    using 0 load_bytes_length by blast+
  moreover have "s\<lparr>heap := heap s0 @ [Some c, Some cr]\<rparr> = s"
    using 0(2) by simp
  moreover have "compare_and_print_loop1 reference output (Ptr (length (heap s0)) 0)
           (Ptr (Suc (length (heap s0))) 0) sz i s = Some s"
    using eq by (subst compare_and_print_loop1.simps) simp
  ultimately show ?case using 0(3,4) eq
    by (simp add: hex_string_def tail_after_def)
next
  case (Suc m)
  then have lt: "i < sz" by simp
  have len: "length ref = nat sz" "length out = nat sz"
    using Suc load_bytes_length by blast+
  have ci: "c_int (2 * i) = Some (2 * i)" "c_int (i + 1) = Some (i + 1)"
    using Suc lt by (auto simp: c_int_def INT_MAX_def INT_MIN_def)
  let ?c1 = "take (nat (2 * i)) c @ map of_char (fmt_02x (out ! nat i)) @
             0 # drop (nat (2 * i) + 3) c"
  let ?cr1 = "take (nat (2 * i)) cr @ map of_char (fmt_02x (ref ! nat i)) @
             0 # drop (nat (2 * i) + 3) cr"
  let ?s1 = "s\<lparr>heap := heap s0 @ [Some ?c1, Some cr]\<rparr>"
  let ?s2 = "?s1\<lparr>heap := heap s0 @ [Some ?c1, Some ?cr1]\<rparr>"
  have ld: "load (ptr_add output i) s = Some (out ! nat i)"
  proof (rule load_in_bytes)
    show "load_bytes output (nat sz) s = Some out"
      using Suc.prems(5,1) by (rule load_bytes_heap_append)
  qed (use Suc.prems lt in auto)
  have sp: "sprintf_02x (ptr_add (Ptr (length (heap s0)) 0) (2 * i)) (out ! nat i) s = Some ?s1"
    using Suc.prems lt by (simp add: ptr_add_def sprintf_02x_last2)
  have ld2: "load (ptr_add reference i) ?s1 = Some (ref ! nat i)"
  proof (rule load_in_bytes)
    show "load_bytes reference (nat sz) ?s1 = Some ref"
      using Suc.prems(4) by (rule load_bytes_heap_append) simp
  qed (use Suc.prems lt in auto)
  have sp2: "sprintf_02x (ptr_add (Ptr (Suc (length (heap s0))) 0) (2 * i)) (ref ! nat i) ?s1 = Some ?s2"
    using Suc.prems lt by (simp add: ptr_add_def sprintf_02x_last1 [where c = ?c1 and cr = cr])
  have IH: "compare_and_print_loop1 reference output (Ptr (length (heap s0)) 0)
           (Ptr (Suc (length (heap s0))) 0) sz (i + 1) ?s2 =
    Some (?s2\<lparr>heap := heap s0 @
      [Some (take (2 * nat (i + 1)) ?c1 @ map of_char (hex_string (drop (nat (i + 1)) out)) @ tail_after (nat (i + 1)) (nat sz) ?c1),
       Some (take (2 * nat (i + 1)) ?cr1 @ map of_char (hex_string (drop (nat (i + 1)) ref)) @ tail_after (nat (i + 1)) (nat sz) ?cr1)]\<rparr>)"
    using Suc lt by (intro Suc.hyps(1)) (auto simp: fmt_02x_def)
  have dr: "drop (nat i) out = out ! nat i # drop (nat (i + 1)) out"
     "drop (nat i) ref = ref ! nat i # drop (nat (i + 1)) ref"
    using lt len Suc.prems by (simp_all add: Cons_nth_drop_Suc nat_add_distrib)
  have tk: "take (2 * nat (i + 1)) ?c1 = take (2 * nat i) c @ map of_char (fmt_02x (out ! nat i))"
    "take (2 * nat (i + 1)) ?cr1 = take (2 * nat i) cr @ map of_char (fmt_02x (ref ! nat i))"
    using Suc.prems lt by (simp_all add: nat_add_distrib nat_mult_distrib fmt_02x_def)
  have tl: "tail_after (nat (i + 1)) (nat sz) ?c1 = [0]" "tail_after (nat (i + 1)) (nat sz) ?cr1 = [0]"
  proof -
    show "tail_after (nat (i + 1)) (nat sz) ?c1 = [0]"
    proof (cases "nat (i + 1) < nat sz")
      case True
      then show ?thesis by (simp add: tail_after_def)
    next
      case False
      with lt Suc.prems have "nat sz = nat i + 1" by (simp add: nat_add_distrib)
      with Suc.prems show ?thesis
        by (simp add: tail_after_def nat_add_distrib nat_mult_distrib fmt_02x_def)
    qed
    show "tail_after (nat (i + 1)) (nat sz) ?cr1 = [0]"
    proof (cases "nat (i + 1) < nat sz")
      case True
      then show ?thesis by (simp add: tail_after_def)
    next
      case False
      with lt Suc.prems have "nat sz = nat i + 1" by (simp add: nat_add_distrib)
      with Suc.prems show ?thesis
        by (simp add: tail_after_def nat_add_distrib nat_mult_distrib fmt_02x_def)
    qed
  qed
  have ta: "tail_after (nat i) (nat sz) c = [0]" "tail_after (nat i) (nat sz) cr = [0]"
    using lt Suc.prems by (simp_all add: tail_after_def)
  have IH': "compare_and_print_loop1 reference output (Ptr (length (heap s0)) 0)
           (Ptr (Suc (length (heap s0))) 0) sz (i + 1) ?s2 =
    Some (s\<lparr>heap := heap s0 @
      [Some (take (2 * nat i) c @ map of_char (fmt_02x (out ! nat i)) @
             map of_char (hex_string (drop (nat (i + 1)) out)) @ [0]),
       Some (take (2 * nat i) cr @ map of_char (fmt_02x (ref ! nat i)) @
             map of_char (hex_string (drop (nat (i + 1)) ref)) @ [0])]\<rparr>)"
    using IH unfolding tk tl by simp
  have step: "compare_and_print_loop1 reference output (Ptr (length (heap s0)) 0)
           (Ptr (Suc (length (heap s0))) 0) sz i s =
      compare_and_print_loop1 reference output (Ptr (length (heap s0)) 0)
           (Ptr (Suc (length (heap s0))) 0) sz (i + 1) ?s2"
    by (subst compare_and_print_loop1.simps)
       (simp only: lt if_True ci option.case ld sp ld2 sp2)
  show ?case
    unfolding step IH' by (simp add: dr ta hex_string_Cons)
qed

lemma compare_and_print_loop2_run:
  assumes "load_bytes reference (nat sz) s = Some ref" "load_bytes output (nat sz) s = Some out"
    and "0 \<le> i" "i \<le> sz" "sz < 2 ^ 30"
  shows "compare_and_print_loop2 txt reference output sz i s =
    (case find (\<lambda>k. out ! k \<noteq> ref ! k) [nat i..<nat sz] of
       None \<Rightarrow> Return () s
     | Some k \<Rightarrow> Exit EXIT_FAILURE (fprintf Stderr (differ_msg txt k) s))"
  using assms
proof (induction "nat (sz - i)" arbitrary: i)
  case 0
  then have eq: "i = sz" by simp
  show ?case unfolding eq
    by (subst compare_and_print_loop2.simps) simp
next
  case (Suc m)
  then have lt: "i < sz" by simp
  have ci: "c_int (i + 1) = Some (i + 1)"
    using Suc lt by (auto simp: c_int_def INT_MAX_def INT_MIN_def)
  have ld: "load (ptr_add output i) s = Some (out ! nat i)"
    "load (ptr_add reference i) s = Some (ref ! nat i)"
    using Suc.prems lt by (auto intro!: load_in_bytes)
  have up: "[nat i..<nat sz] = nat i # [nat (i + 1)..<nat sz]"
    using lt Suc.prems by (simp add: upt_conv_Cons nat_add_distrib)
  have IH: "compare_and_print_loop2 txt reference output sz (i + 1) s =
    (case find (\<lambda>k. out ! k \<noteq> ref ! k) [nat (i + 1)..<nat sz] of
       None \<Rightarrow> Return () s
     | Some k \<Rightarrow> Exit EXIT_FAILURE (fprintf Stderr (differ_msg txt k) s))"
    using Suc lt by (intro Suc.hyps(1)) auto
  show ?case
  proof (cases "out ! nat i = ref ! nat i")
    case True
    have "compare_and_print_loop2 txt reference output sz i s =
        compare_and_print_loop2 txt reference output sz (i + 1) s"
      by (subst compare_and_print_loop2.simps)
         (simp only: lt if_True ld option.case True ci not_True_eq_False simp_thms if_False)
    then show ?thesis unfolding IH up using True by simp
  next
    case False
    have "compare_and_print_loop2 txt reference output sz i s =
        Exit EXIT_FAILURE (fprintf Stderr (differ_msg txt (nat i)) s)"
      using False Suc.prems(3)
      by (subst compare_and_print_loop2.simps) (simp add: lt ld differ_msg_def)
    then show ?thesis unfolding up using False by simp
  qed
qed

lemma TestLib_compare_and_print_run:
  assumes rf: "load_bytes reference (nat sz) s = Some ref"
    and ou: "load_bytes output (nat sz) s = Some out"
    and sz: "0 \<le> sz" "sz < 2 ^ 30" and av: "avail s = True # True # rest"
  shows "TestLib_compare_and_print txt reference output sz s =
    (case find (\<lambda>k. out ! k \<noteq> ref ! k) [0..<nat sz] of
       None \<Rightarrow>
         Return () ((printf (''[test] '' @ txt @ '' is a success'' @ newline)
                       (rendered txt ref out rest s))
           \<lparr>heap := heap s @ [None, None]\<rparr>)
     | Some k \<Rightarrow>
         Exit EXIT_FAILURE (fprintf Stderr (differ_msg txt k) (rendered txt ref out rest s)))"
proof -
  let ?n = "nat sz"
  let ?b = "length (heap s)"
  define c where "c = map (junk s) [0..<2 * ?n + 1]"
  have cl: "length c = 2 * ?n + 1" by (simp add: c_def)
  let ?s1 = "s\<lparr>heap := heap s @ [Some c], avail := True # rest\<rparr>"
  let ?s2 = "s\<lparr>heap := heap s @ [Some c, Some c], avail := rest\<rparr>"
  have ci: "c_int (2 * sz) = Some (2 * sz)" "c_int (2 * sz + 1) = Some (2 * sz + 1)"
    using sz by (auto simp: c_int_def INT_MAX_def INT_MIN_def)
  have ts: "to_size_t (2 * sz + 1) = 2 * ?n + 1"
    using sz by (simp add: to_size_t_small nat_add_distrib nat_mult_distrib)
  have m1: "malloc (2 * ?n + 1) s = (Ptr ?b 0, ?s1)"
    using av by (simp add: malloc_def c_def)
  have m2: "malloc (2 * ?n + 1) ?s1 = (Ptr (Suc ?b) 0, ?s2)"
    by (simp add: malloc_def c_def)
  have len: "length ref = ?n" "length out = ?n"
    using rf ou load_bytes_length by blast+
  let ?x = "map of_char (hex_string out) @ tail_after 0 ?n c"
  let ?xr = "map of_char (hex_string ref) @ tail_after 0 ?n c"
  let ?s3 = "?s2\<lparr>heap := heap s @ [Some ?x, Some ?xr]\<rparr>"
  have lp: "compare_and_print_loop1 reference output (Ptr ?b 0) (Ptr (Suc ?b) 0) sz 0 ?s2 = Some ?s3"
    using compare_and_print_loop1_run [of ?s2 s c c sz reference ref _ out 0] rf ou sz cl
    by simp
  let ?s4 = "?s2\<lparr>heap := heap s @ [Some (map of_char (hex_string out) @ [0]), Some ?xr]\<rparr>"
  let ?s5 = "?s2\<lparr>heap := heap s @ [Some (map of_char (hex_string out) @ [0]),
                                      Some (map of_char (hex_string ref) @ [0])]\<rparr>"
  have two: "2 * sz = int (2 * ?n)" using sz by simp
  have "store (Ptr ?b (int (2 * ?n))) 0 ?s3 =
      Some (?s3\<lparr>heap := heap s @ [Some (map of_char (hex_string out) @ [0]), Some ?xr]\<rparr>)"
    by (rule store_nul_last2 [where c = c]) (simp_all add: len cl)
  then have st1: "store (ptr_add (Ptr ?b 0) (2 * sz)) 0 ?s3 = Some ?s4"
    unfolding two by (simp add: ptr_add_def)
  have "store (Ptr (Suc ?b) (int (2 * ?n))) 0 ?s4 =
      Some (?s4\<lparr>heap := heap s @ [Some (map of_char (hex_string out) @ [0]),
         Some (map of_char (hex_string ref) @ [0])]\<rparr>)"
    by (rule store_nul_last1 [where c = c]) (simp_all add: len cl)
  then have st2: "store (ptr_add (Ptr (Suc ?b) 0) (2 * sz)) 0 ?s4 = Some ?s5"
    unfolding two by (simp add: ptr_add_def)
  have cs1: "c_str (Ptr (Suc ?b) 0) ?s5 = Some (hex_string ref)"
    by (rule c_str_block) (simp_all add: nth_append)
  let ?s6 = "printf (''[test] expected output '' @ txt @ '' is '' @ hex_string ref @ newline) ?s5"
  have cs2: "c_str (Ptr ?b 0) ?s6 = Some (hex_string out)"
    by (rule c_str_block) (simp_all add: nth_append)
  let ?s7 = "printf (''[test] computed output '' @ txt @ '' is '' @ hex_string out @ newline) ?s6"
  have s5: "?s5 = s\<lparr>heap := heap s @ [Some (map of_char (hex_string out) @ [0]),
                                       Some (map of_char (hex_string ref) @ [0])],
                         avail := rest\<rparr>"
    by simp
  have s7: "?s7 = rendered txt ref out rest s"
    by (simp only: rendered_def s5)
  have rf7: "load_bytes reference ?n ?s7 = Some ref"
    using rf by (rule load_bytes_heap_append) simp
  have ou7: "load_bytes output ?n ?s7 = Some out"
    using ou by (rule load_bytes_heap_append) simp
  have l2: "compare_and_print_loop2 txt reference output sz 0 ?s7 =
    (case find (\<lambda>k. out ! k \<noteq> ref ! k) [0..<?n] of
       None \<Rightarrow> Return () ?s7
     | Some k \<Rightarrow> Exit EXIT_FAILURE (fprintf Stderr (differ_msg txt k) ?s7))"
    using compare_and_print_loop2_run [OF rf7 ou7, of 0 "txt"] sz by simp
  have pre: "TestLib_compare_and_print txt reference output sz s =
    (case compare_and_print_loop2 txt reference output sz 0 ?s7 of
        Undefined \<Rightarrow> Undefined
      | Exit code s8 \<Rightarrow> Exit code s8
      | Return _ s8 \<Rightarrow>
     (let s9 = printf (''[test] '' @ txt @ '' is a success'' @ newline) s8 in
      case free (Ptr ?b 0) s9 of
        None \<Rightarrow> Undefined
      | Some s10 \<Rightarrow>
     (case free (Ptr (Suc ?b) 0) s10 of
        None \<Rightarrow> Undefined
      | Some s11 \<Rightarrow> Return () s11)))"
    unfolding TestLib_compare_and_print_def
    by (simp only: ci option.case ts m1 m2 Let_def prod.case lp st1 st2 cs1 cs2)
  show ?thesis
  proof (cases "find (\<lambda>k. out ! k \<noteq> ref ! k) [0..<?n]")
    case None
    let ?s9 = "printf (''[test] '' @ txt @ '' is a success'' @ newline) (rendered txt ref out rest s)"
    have f1: "free (Ptr ?b 0) ?s9 = Some (?s9\<lparr>heap := heap s @ [None, Some (map of_char (hex_string ref) @ [0])]\<rparr>)"
      by (simp add: free_def nth_append list_update_append)
    have f2: "free (Ptr (Suc ?b) 0) (?s9\<lparr>heap := heap s @ [None, Some (map of_char (hex_string ref) @ [0])]\<rparr>)
       = Some (?s9\<lparr>heap := heap s @ [None, None]\<rparr>)"
      by (simp add: free_def nth_append list_update_append)
    have "TestLib_compare_and_print txt reference output sz s = Return () (?s9\<lparr>heap := heap s @ [None, None]\<rparr>)"
      unfolding pre [unfolded s7] l2 [unfolded s7] None
      by (simp only: option.case result.case Let_def f1 f2)
    then show ?thesis unfolding None by simp
  next
    case (Some k)
    show ?thesis unfolding pre [unfolded s7] l2 [unfolded s7] Some by simp
  qed
qed

text \<open>
  The call has defined behaviour only if the allocator grants both requests and
  \<open>2 * m + 1\<close> is representable in \<^verbatim>\<open>int\<close>.
\<close>

lemma compare_and_print_loop1_Null:
  assumes "i < sz" "str = Null \<or> str_ref = Null"
  shows "compare_and_print_loop1 reference output str str_ref sz i s = None"
  using assms
  by (subst compare_and_print_loop1.simps) (auto split: option.splits)

lemma TestLib_compare_and_print_defined:
  assumes "TestLib_compare_and_print txt reference output m s \<noteq> Undefined" and "0 \<le> m"
  shows "(\<exists>rest. avail s = True # True # rest) \<and> m < 2 ^ 30"
proof (rule ccontr)
  assume n: "\<not> ((\<exists>rest. avail s = True # True # rest) \<and> m < 2 ^ 30)"
  have "TestLib_compare_and_print txt reference output m s = Undefined"
  proof (cases "m < 2 ^ 30")
    case False
    then have "c_int (2 * m) = None" by (simp add: c_int_def INT_MAX_def)
    then show ?thesis by (simp add: TestLib_compare_and_print_def)
  next
    case True
    with n have av: "\<not> (\<exists>rest. avail s = True # True # rest)" by simp
    have ci: "c_int (2 * m) = Some (2 * m)" "c_int (2 * m + 1) = Some (2 * m + 1)"
      using True assms(2) by (auto simp: c_int_def INT_MAX_def INT_MIN_def)
    obtain str s1 where m1: "malloc (to_size_t (2 * m + 1)) s = (str, s1)" by fastforce
    obtain str_ref s2 where m2: "malloc (to_size_t (2 * m + 1)) s1 = (str_ref, s2)" by fastforce
    from av m1 m2 have nul: "str = Null \<or> str_ref = Null"
      by (auto simp: malloc_def split: list.splits if_splits)
    show ?thesis
    proof (cases "0 < m")
      case True
      then show ?thesis
        by (simp add: TestLib_compare_and_print_def ci m1 m2
            compare_and_print_loop1_Null [OF _ nul])
    next
      case False
      with assms(2) have z: "m = 0" by simp
      have l: "compare_and_print_loop1 reference output str str_ref 0 0 s2 = Some s2"
        by (subst compare_and_print_loop1.simps) simp
      from nul show ?thesis
        using ci m1 m2 l unfolding z
        by (auto simp: TestLib_compare_and_print_def store_def store_bytes_def ptr_add_def
            split: option.splits ptr.splits if_splits)
    qed
  qed
  with assms(1) show False by contradiction
qed

text \<open>What a call that has come to an end has done.\<close>

lemma print_buf_returned:
  assumes "load_bytes buf n s = Some bs" and "print_buf buf n file line s = Return () s'"
  shows "\<exists>rest. s' =
    printf (file @ '':'' @ show_int line @ '': '' @ hex_string bs @ newline)
      (s\<lparr>heap := heap s @ [Some (map of_char (hex_string bs) @ [0])], avail := rest\<rparr>)"
proof -
  from assms(2) have "print_buf buf n file line s \<noteq> Undefined" by simp
  then obtain rest where d: "avail s = True # rest" "n \<le> 2 ^ 30"
    using print_buf_defined by blast
  from assms(2) show ?thesis
    unfolding print_buf_run [OF assms(1) d] by auto
qed

lemma TestLib_compare_and_print_ended:
  assumes "load_bytes reference (nat m) t = Some ref"
    and "load_bytes output (nat m) t = Some out"
    and "0 \<le> m"
    and "TestLib_compare_and_print txt reference output m t = Return () t' \<or>
         TestLib_compare_and_print txt reference output m t = Exit code t'"
  shows "\<exists>rest.
    (TestLib_compare_and_print txt reference output m t = Return () t' \<and>
     t' = (printf (''[test] '' @ txt @ '' is a success'' @ newline) (rendered txt ref out rest t))
           \<lparr>heap := heap t @ [None, None]\<rparr>) \<or>
    (\<exists>k. TestLib_compare_and_print txt reference output m t = Exit EXIT_FAILURE t' \<and>
     t' = fprintf Stderr (differ_msg txt k) (rendered txt ref out rest t))"
proof -
  from assms(4) have "TestLib_compare_and_print txt reference output m t \<noteq> Undefined" by auto
  then obtain rest where d: "avail t = True # True # rest" "m < 2 ^ 30"
    using TestLib_compare_and_print_defined [OF _ assms(3)] by blast
  show ?thesis
    using assms(4)
    unfolding TestLib_compare_and_print_run [OF assms(1,2,3) d(2,1)]
    by (cases "find (\<lambda>k. out ! k \<noteq> ref ! k) [0..<nat m]") auto
qed

section \<open>Sample evaluations\<close>

lemma sample_buffers:
  "load_bytes (Ptr 0 0) (nat 3) sample = Some [0x00, 0xAB, 0x7F]"
  "load_bytes (Ptr (Suc 0) 0) (nat 3) sample = Some [0x00, 0xAB, 0x7F]"
  "load_bytes (Ptr 2 0) (nat 3) sample = Some [0x00, 0xAC, 0x7F]"
  "avail sample = True # True # []"
  by (simp_all add: load_bytes_def sample_def)

lemma sample_hex:
  "hex_string [0x00, 0xAB, 0x7F] = ''00ab7f''"
  "hex_string [0x00, 0xAC, 0x7F] = ''00ac7f''"
  by (simp_all add: hex_string_def fmt_02x_def digit_def)

lemma show_int_small: "show_int 0 = ''0''" "show_int 1 = ''1''" "show_int 2 = ''2''"
  by (simp_all add: show_int_def show_nat.simps digit_def)

lemma sample_buffer_nat: "load_bytes (Ptr 0 0) 3 sample = Some [0x00, 0xAB, 0x7F]"
  by (simp add: load_bytes_def sample_def)

lemma sample_avail: "avail sample = True # [True]"
  by (simp add: sample_def)

lemma show_int_7: "show_int 7 = ''7''"
  by (simp add: show_int_def show_nat.simps digit_def)

lemma sample_live: "live_blocks sample = [0, 1, 2]"
  by (simp add: live_blocks_def sample_def upt_rec)

lemma sample_print_buf:
  "print_buf (Ptr 0 0) 3 ''file.c'' 7 sample =
     Return () (sample\<lparr>heap := heap sample @ [Some (map of_char ''00ab7f'' @ [0])],
                  avail := [True],
                  written := [(Stdout, ''file.c:7: 00ab7f'' @ newline)]\<rparr>)"
proof -
  have a: "(3 :: nat) \<le> 2 ^ 30" by simp
  have w: "written sample = []" by (simp add: sample_def)
  show ?thesis
    unfolding print_buf_run [OF sample_buffer_nat sample_avail a]
    by (simp add: sample_hex show_int_7 w printf_fits newline_def INT_MAX_def)
qed

lemma sample_compare_differ:
  "TestLib_compare_and_print ''kat'' (Ptr 0 0) (Ptr 2 0) 3 sample =
     Exit EXIT_FAILURE (fprintf Stderr (differ_msg ''kat'' 1)
        (rendered ''kat'' [0x00, 0xAB, 0x7F] [0x00, 0xAC, 0x7F] [] sample))"
proof -
  have a: "(0 :: int) \<le> 3" "(3 :: int) < 2 ^ 30" by simp_all
  show ?thesis
    unfolding TestLib_compare_and_print_run
      [OF sample_buffers(1) sample_buffers(3) a sample_buffers(4)]
    by (simp add: upt_rec)
qed

lemma huge_buffers:
  "load_bytes (Ptr 0 0) (nat (2 ^ 30)) (huge v) = Some (replicate (2 ^ 30) 0)"
  "load_bytes (Ptr (Suc 0) 0) (nat (2 ^ 30)) (huge v) = Some (replicate (2 ^ 30) v)"
  by (simp_all add: load_bytes_def huge_def)

lemma compare_and_print_overflow:
  "TestLib_compare_and_print txt reference output (2 ^ 30) s = Undefined"
  by (simp add: TestLib_compare_and_print_def c_int_def INT_MAX_def)

lemma sample_compare_equal:
  "TestLib_compare_and_print ''kat'' (Ptr 0 0) (Ptr (Suc 0) 0) 3 sample =
     Return () ((printf (''[test] kat is a success'' @ newline)
                   (rendered ''kat'' [0x00, 0xAB, 0x7F] [0x00, 0xAB, 0x7F] [] sample))
       \<lparr>heap := heap sample @ [None, None]\<rparr>)"
proof -
  have a: "(0 :: int) \<le> 3" "(3 :: int) < 2 ^ 30" by simp_all
  show ?thesis
    unfolding TestLib_compare_and_print_run
      [OF sample_buffers(1) sample_buffers(2) a sample_buffers(4)]
    by (simp add: upt_rec)
qed

lemma sample_unsafe_malloc:
  "TestLib_unsafe_malloc 4 sample =
     Return (Ptr 3 0) (sample\<lparr>heap := heap sample @ [Some [0xEE, 0xEE, 0xEE, 0xEE]],
                              avail := [True]\<rparr>)"
  by (simp add: TestLib_unsafe_malloc_def malloc_def sample_def upt_rec numeral_eq_Suc)

section \<open>TestLib_compare_and_print: success or exit\<close>




text \<open>
  C3, as the claim states it, fails for the same two reasons: on differing buffers of
  \<open>2 ^ 30\<close> bytes, and on differing buffers of three bytes when the second allocation fails,
  the call has undefined behaviour; it prints no rendering and does not reach
  \<^verbatim>\<open>exit\<close>.
\<close>

theorem differing_buffers_without_abort:
  "load_bytes (Ptr 0 0) (nat (2 ^ 30)) (huge 1) = Some (replicate (2 ^ 30) 0) \<and>
   load_bytes (Ptr (Suc 0) 0) (nat (2 ^ 30)) (huge 1) = Some (replicate (2 ^ 30) 1) \<and>
   TestLib_compare_and_print ''kat'' (Ptr 0 0) (Ptr (Suc 0) 0) (2 ^ 30) (huge 1) = Undefined \<and>
   load_bytes (Ptr 0 0) (nat 3) (sample\<lparr>avail := [True, False]\<rparr>) = Some [0x00, 0xAB, 0x7F] \<and>
   load_bytes (Ptr 2 0) (nat 3) (sample\<lparr>avail := [True, False]\<rparr>) = Some [0x00, 0xAC, 0x7F] \<and>
   TestLib_compare_and_print ''kat'' (Ptr 0 0) (Ptr 2 0) 3 (sample\<lparr>avail := [True, False]\<rparr>) =
     Undefined"
proof -
  have "TestLib_compare_and_print ''kat'' (Ptr 0 0) (Ptr 2 0) 3
      (sample\<lparr>avail := [True, False]\<rparr>) = Undefined"
  proof (rule ccontr)
    assume "TestLib_compare_and_print ''kat'' (Ptr 0 0) (Ptr 2 0) 3
      (sample\<lparr>avail := [True, False]\<rparr>) \<noteq> Undefined"
    from TestLib_compare_and_print_defined [OF this] show False by simp
  qed
  moreover have
    "load_bytes (Ptr 0 0) (nat 3) (sample\<lparr>avail := [True, False]\<rparr>) = Some [0x00, 0xAB, 0x7F]"
    "load_bytes (Ptr 2 0) (nat 3) (sample\<lparr>avail := [True, False]\<rparr>) = Some [0x00, 0xAC, 0x7F]"
    by (simp_all add: load_bytes_def sample_def)
  ultimately show ?thesis
    by (intro conjI huge_buffers compare_and_print_overflow)
qed

text \<open>
  C3, amended. Under the conditions of the amended C1 (readable buffers of \<open>n \<ge> 0\<close> bytes,
  both allocations granted, \<open>length txt + 2 * n + 28 \<le> INT_MAX\<close> and
  \<open>2 * length txt + 58 \<le> INT_MAX\<close>, so that each line can be printed by one call of
  \<^verbatim>\<open>printf\<close>), on buffers that differ the call prints the complete rendering of the
  reference (the expected line), then the complete rendering of the output (the computed
  line), then the mismatch message, and ends the process; the index \<open>k\<close> in the message is
  the least index at which the buffers differ.
\<close>

theorem TestLib_compare_and_print_first_mismatch:
  assumes "load_bytes reference (nat n) s = Some ref"
    and "load_bytes output (nat n) s = Some out"
    and "0 \<le> n"
    and "avail s = True # True # rest"
    and "int (length txt) + 2 * n + 28 \<le> INT_MAX"
    and "2 * int (length txt) + 58 \<le> INT_MAX"
    and "\<exists>i<nat n. out ! i \<noteq> ref ! i"
  shows "\<exists>k s'. k < nat n \<and> out ! k \<noteq> ref ! k \<and> (\<forall>j<k. out ! j = ref ! j) \<and>
     TestLib_compare_and_print txt reference output n s = Exit EXIT_FAILURE s' \<and>
     written s' = written s @
       [(Stdout, ''[test] expected output '' @ txt @ '' is '' @ hex_string ref @ newline),
        (Stdout, ''[test] computed output '' @ txt @ '' is '' @ hex_string out @ newline),
        (Stderr, ''[test] reference '' @ txt @ '' and expected '' @ txt @
                 '' differ at byte '' @ show_int (int k) @ newline)]"
proof -
  have n: "n < 2 ^ 30" using assms(5) by (simp add: INT_MAX_def)
  have len: "length ref = nat n" "length out = nat n"
    using assms(1,2) load_bytes_length by blast+
  from assms(7) have "find (\<lambda>k. out ! k \<noteq> ref ! k) [0..<nat n] \<noteq> None"
    by (simp add: find_upt_None)
  then obtain k where k: "find (\<lambda>k. out ! k \<noteq> ref ! k) [0..<nat n] = Some k" by blast
  from find_upt_Some [OF k]
  have lst: "k < nat n" "out ! k \<noteq> ref ! k" "\<forall>j<k. out ! j = ref ! j" by auto
  from lst(1) have "int k < n" by (simp add: zless_nat_eq_int_zless)
  with n have "int k < 2 ^ 30" by simp
  then have "k < 2 ^ 30" by simp
  then have "length (show_int (int k)) \<le> 10" by (rule length_show_index)
  then have fit: "int (length (differ_msg txt k)) \<le> INT_MAX"
    using assms(6) by (simp add: length_differ_msg)
  have fits: "int (length txt) + 2 * int (length ref) + 28 \<le> INT_MAX"
    using assms(5,3) len by simp
  have "TestLib_compare_and_print txt reference output n s =
      Exit EXIT_FAILURE (fprintf Stderr (differ_msg txt k) (rendered txt ref out rest s))"
    by (simp add: TestLib_compare_and_print_run [OF assms(1,2,3) n assms(4)] k)
  moreover have "written (fprintf Stderr (differ_msg txt k) (rendered txt ref out rest s)) =
     written s @
       [(Stdout, ''[test] expected output '' @ txt @ '' is '' @ hex_string ref @ newline),
        (Stdout, ''[test] computed output '' @ txt @ '' is '' @ hex_string out @ newline),
        (Stderr, ''[test] reference '' @ txt @ '' and expected '' @ txt @
                 '' differ at byte '' @ show_int (int k) @ newline)]"
    unfolding fprintf_fits [OF fit] rendered_fits [OF fits len(2) [folded len(1)]]
    by (simp add: differ_msg_def)
  ultimately show ?thesis using lst by blast
qed

theorem TestLib_compare_and_print_first_mismatch_witness:
  "\<exists>s'. TestLib_compare_and_print ''kat'' (Ptr 0 0) (Ptr 2 0) 3 sample = Exit EXIT_FAILURE s' \<and>
     written s' =
       [(Stdout, ''[test] expected output kat is 00ab7f'' @ newline),
        (Stdout, ''[test] computed output kat is 00ac7f'' @ newline),
        (Stderr, ''[test] reference kat and expected kat differ at byte 1'' @ newline)]"
proof -
  have d: "\<exists>i<nat 3. [0x00, 0xAC, 0x7F :: byte] ! i \<noteq> [0x00, 0xAB, 0x7F] ! i"
    by (rule exI [of _ 1]) simp
  have b: "int (length ''kat'') + 2 * 3 + 28 \<le> INT_MAX" "2 * int (length ''kat'') + 58 \<le> INT_MAX"
    by (simp_all add: INT_MAX_def)
  from TestLib_compare_and_print_first_mismatch
    [OF sample_buffers(1) sample_buffers(3) _ sample_buffers(4) b d]
  obtain k s' where k: "k < nat 3" "[0x00, 0xAC, 0x7F :: byte] ! k \<noteq> [0x00, 0xAB, 0x7F] ! k"
    and r: "TestLib_compare_and_print ''kat'' (Ptr 0 0) (Ptr 2 0) 3 sample = Exit EXIT_FAILURE s'"
    and w: "written s' = written sample @
       [(Stdout, ''[test] expected output '' @ ''kat'' @ '' is '' @ hex_string [0x00, 0xAB, 0x7F] @ newline),
        (Stdout, ''[test] computed output '' @ ''kat'' @ '' is '' @ hex_string [0x00, 0xAC, 0x7F] @ newline),
        (Stderr, ''[test] reference '' @ ''kat'' @ '' and expected '' @ ''kat'' @
                 '' differ at byte '' @ show_int (int k) @ newline)]"
    by auto
  from k have "k = 0 \<or> k = 1 \<or> k = 2" by auto
  with k(2) have "k = 1" by auto
  with r w show ?thesis
    by (simp add: sample_hex show_int_small sample_def)
qed

section \<open>The hexadecimal rendering\<close>

text \<open>
  C7, as the claim states it, fails: not every buffer has a rendering. Both functions index
  the buffer with an \<^verbatim>\<open>int\<close> \<open>i\<close> and compute the position \<open>2 * i\<close> in
  \<^verbatim>\<open>int\<close>. For a buffer of \<open>2 ^ 30 + 1\<close> bytes, \<^verbatim>\<open>print_buf\<close> overflows at
  \<open>i = 2 ^ 30\<close>; for buffers of \<open>2 ^ 30\<close> bytes, \<^verbatim>\<open>TestLib_compare_and_print\<close>
  overflows when it computes the length \<open>2 * size + 1\<close>. The calls run into undefined
  behaviour before they print anything, so no rendering is promised.
\<close>

theorem large_buffers_without_rendering:
  "load_bytes (Ptr 0 0) (2 ^ 30 + 1) vast = Some (replicate (2 ^ 30 + 1) 0) \<and>
   avail vast = [True] \<and>
   print_buf (Ptr 0 0) (2 ^ 30 + 1) ''file.c'' 7 vast = Undefined \<and>
   load_bytes (Ptr 0 0) (nat (2 ^ 30)) (huge 0xFF) = Some (replicate (2 ^ 30) 0) \<and>
   load_bytes (Ptr (Suc 0) 0) (nat (2 ^ 30)) (huge 0xFF) = Some (replicate (2 ^ 30) 0xFF) \<and>
   avail (huge 0xFF) = [True, True] \<and>
   TestLib_compare_and_print ''kat'' (Ptr 0 0) (Ptr (Suc 0) 0) (2 ^ 30) (huge 0xFF) = Undefined"
proof -
  have "load_bytes (Ptr 0 0) (2 ^ 30 + 1) vast = Some (replicate (2 ^ 30 + 1) 0)"
    by (simp add: load_bytes_def vast_def)
  moreover have "print_buf (Ptr 0 0) (2 ^ 30 + 1) ''file.c'' 7 vast = Undefined"
    by (simp add: print_buf_def print_buf_loop_big split: prod.splits)
  moreover have "avail vast = [True]" "avail (huge 0xFF) = [True, True]"
    by (simp_all add: vast_def huge_def)
  ultimately show ?thesis
    by (intro conjI huge_buffers compare_and_print_overflow)
qed

text \<open>
  C7, amended. Let \<open>buf\<close> point to \<open>n\<close> readable bytes \<open>bs\<close>, in a process whose allocator
  grants the request for the rendering buffer, and let the line to print have at most
  \<^verbatim>\<open>INT_MAX\<close> characters: \<open>length file + length (show_int line) + 2 * n + 4 \<le> INT_MAX\<close>.
  Then \<^verbatim>\<open>print_buf\<close> returns; the one line it has printed is its label followed by a
  rendering \<open>r\<close>, which is the string its buffer holds in front of a NUL; \<open>r\<close> has exactly
  \<open>2 * n\<close> characters, each a lowercase hexadecimal digit, and the characters \<open>2 * i\<close> and
  \<open>2 * i + 1\<close> are the high and the low digit of byte \<open>i\<close>, for every \<open>i < n\<close>.
  Let \<open>reference\<close> and \<open>output\<close> point to \<open>m \<ge> 0\<close> readable bytes each, in a process whose
  allocator grants both requests, with \<open>length txt + 2 * m + 28 \<le> INT_MAX\<close>. Then
  \<^verbatim>\<open>TestLib_compare_and_print\<close> returns or ends the process with
  \<^verbatim>\<open>EXIT_FAILURE\<close>; the renderings on its first two lines, of the reference and of the
  output, have the same form; when it ends the process its two buffers hold them in front
  of a NUL, and when it returns it has freed the two buffers.
\<close>

theorem hex_rendering_of_buffers:
  "(load_bytes buf n s = Some bs \<and> avail s = True # rest \<and>
    int (length file) + int (length (show_int line)) + 2 * int n + 4 \<le> INT_MAX \<longrightarrow>
      (\<exists>r s'. print_buf buf n file line s = Return () s' \<and>
            written s' = written s @
              [(Stdout, file @ '':'' @ show_int line @ '': '' @ r @ newline)] \<and>
            heap s' = heap s @ [Some (map of_char r @ [0])] \<and>
            length r = 2 * n \<and>
            (\<forall>i<n. hex_value (r ! (2 * i)) = Some (unat (bs ! i) div 16) \<and>
                   hex_value (r ! (2 * i + 1)) = Some (unat (bs ! i) mod 16)))) \<and>
   (load_bytes reference (nat m) t = Some ref \<and> load_bytes output (nat m) t = Some out \<and>
    0 \<le> m \<and> avail t = True # True # rest' \<and>
    int (length txt) + 2 * m + 28 \<le> INT_MAX \<longrightarrow>
      (\<exists>r_ref r_out t' more.
            ((TestLib_compare_and_print txt reference output m t = Return () t' \<and>
              heap t' = heap t @ [None, None]) \<or>
             (TestLib_compare_and_print txt reference output m t = Exit EXIT_FAILURE t' \<and>
              heap t' = heap t @ [Some (map of_char r_out @ [0]),
                                  Some (map of_char r_ref @ [0])])) \<and>
            written t' = written t @
              [(Stdout, ''[test] expected output '' @ txt @ '' is '' @ r_ref @ newline),
               (Stdout, ''[test] computed output '' @ txt @ '' is '' @ r_out @ newline),
               more] \<and>
            length r_ref = 2 * nat m \<and> length r_out = 2 * nat m \<and>
            (\<forall>i<nat m.
               hex_value (r_ref ! (2 * i)) = Some (unat (ref ! i) div 16) \<and>
               hex_value (r_ref ! (2 * i + 1)) = Some (unat (ref ! i) mod 16) \<and>
               hex_value (r_out ! (2 * i)) = Some (unat (out ! i) div 16) \<and>
               hex_value (r_out ! (2 * i + 1)) = Some (unat (out ! i) mod 16))))"
proof (intro conjI impI; elim conjE)
  assume a: "load_bytes buf n s = Some bs" "avail s = True # rest"
    "int (length file) + int (length (show_int line)) + 2 * int n + 4 \<le> INT_MAX"
  have len: "length bs = n" using a(1) by (rule load_bytes_length)
  have n: "n \<le> 2 ^ 30" using a(3) by (simp add: INT_MAX_def)
  have fit: "int (length (file @ '':'' @ show_int line @ '': '' @ hex_string bs @ newline))
      \<le> INT_MAX"
    using a(3) len by (simp add: newline_def)
  show "\<exists>r s'. print_buf buf n file line s = Return () s' \<and>
            written s' = written s @
              [(Stdout, file @ '':'' @ show_int line @ '': '' @ r @ newline)] \<and>
            heap s' = heap s @ [Some (map of_char r @ [0])] \<and>
            length r = 2 * n \<and>
            (\<forall>i<n. hex_value (r ! (2 * i)) = Some (unat (bs ! i) div 16) \<and>
                   hex_value (r ! (2 * i + 1)) = Some (unat (bs ! i) mod 16))"
    unfolding print_buf_run [OF a(1,2) n] printf_fits [OF fit]
    by (rule exI [of _ "hex_string bs"])
       (simp add: len hex_string_value hex_string_value_Suc)
next
  assume a: "load_bytes reference (nat m) t = Some ref" "load_bytes output (nat m) t = Some out"
    "0 \<le> m" "avail t = True # True # rest'"
    "int (length txt) + 2 * m + 28 \<le> INT_MAX"
  have len: "length ref = nat m" "length out = nat m"
    using a(1,2) load_bytes_length by blast+
  have m: "m < 2 ^ 30" using a(5) by (simp add: INT_MAX_def)
  have fits: "int (length txt) + 2 * int (length ref) + 28 \<le> INT_MAX"
    using a(5,3) len by simp
  note rn = rendered_fits [OF fits len(2) [folded len(1)], of rest' t]
  let ?R = "rendered txt ref out rest' t"
  have w: "written ?R = written t @
      [(Stdout, ''[test] expected output '' @ txt @ '' is '' @ hex_string ref @ newline),
       (Stdout, ''[test] computed output '' @ txt @ '' is '' @ hex_string out @ newline)]"
    unfolding rn by simp
  obtain e where e: "written (printf (''[test] '' @ txt @ '' is a success'' @ newline) ?R) =
      written ?R @ [(Stdout, e)]"
    using printf_written by blast
  show "\<exists>r_ref r_out t' more.
            ((TestLib_compare_and_print txt reference output m t = Return () t' \<and>
              heap t' = heap t @ [None, None]) \<or>
             (TestLib_compare_and_print txt reference output m t = Exit EXIT_FAILURE t' \<and>
              heap t' = heap t @ [Some (map of_char r_out @ [0]),
                                  Some (map of_char r_ref @ [0])])) \<and>
            written t' = written t @
              [(Stdout, ''[test] expected output '' @ txt @ '' is '' @ r_ref @ newline),
               (Stdout, ''[test] computed output '' @ txt @ '' is '' @ r_out @ newline),
               more] \<and>
            length r_ref = 2 * nat m \<and> length r_out = 2 * nat m \<and>
            (\<forall>i<nat m.
               hex_value (r_ref ! (2 * i)) = Some (unat (ref ! i) div 16) \<and>
               hex_value (r_ref ! (2 * i + 1)) = Some (unat (ref ! i) mod 16) \<and>
               hex_value (r_out ! (2 * i)) = Some (unat (out ! i) div 16) \<and>
               hex_value (r_out ! (2 * i + 1)) = Some (unat (out ! i) mod 16))"
  proof (cases "find (\<lambda>k. out ! k \<noteq> ref ! k) [0..<nat m]")
    case None
    show ?thesis
      unfolding TestLib_compare_and_print_run [OF a(1,2,3) m a(4)] None
      by (rule exI [of _ "hex_string ref"], rule exI [of _ "hex_string out"],
          rule exI [of _ "(printf (''[test] '' @ txt @ '' is a success'' @ newline) ?R)
                          \<lparr>heap := heap t @ [None, None]\<rparr>"],
          rule exI [of _ "(Stdout, e)"])
         (simp add: e [simplified] w [simplified] len hex_string_value hex_string_value_Suc)
  next
    case (Some k)
    obtain e' where e': "written (fprintf Stderr (differ_msg txt k) ?R) =
        written ?R @ [(Stderr, e')]"
      using fprintf_written by blast
    show ?thesis
      unfolding TestLib_compare_and_print_run [OF a(1,2,3) m a(4)] Some
      by (rule exI [of _ "hex_string ref"], rule exI [of _ "hex_string out"],
          rule exI [of _ "fprintf Stderr (differ_msg txt k) ?R"],
          rule exI [of _ "(Stderr, e')"])
         (simp add: e' w [simplified] len hex_string_value hex_string_value_Suc)
  qed
qed

theorem hex_rendering_of_buffers_witness:
  "(\<exists>r s'. print_buf (Ptr 0 0) 3 ''file.c'' 7 sample = Return () s' \<and>
      written s' = [(Stdout, ''file.c:7: '' @ r @ newline)] \<and>
      heap s' = heap sample @ [Some (map of_char r @ [0])] \<and> length r = 6 \<and>
      hex_value (r ! 0) = Some 0 \<and> hex_value (r ! 1) = Some 0 \<and>
      hex_value (r ! 2) = Some 10 \<and> hex_value (r ! 3) = Some 11 \<and>
      hex_value (r ! 4) = Some 7 \<and> hex_value (r ! 5) = Some 15) \<and>
   (\<exists>r_ref r_out t' more.
      TestLib_compare_and_print ''kat'' (Ptr 0 0) (Ptr 2 0) 3 sample = Exit EXIT_FAILURE t' \<and>
      heap t' = heap sample @ [Some (map of_char r_out @ [0]), Some (map of_char r_ref @ [0])] \<and>
      written t' =
        [(Stdout, ''[test] expected output kat is '' @ r_ref @ newline),
         (Stdout, ''[test] computed output kat is '' @ r_out @ newline), more] \<and>
      length r_ref = 6 \<and> length r_out = 6 \<and>
      hex_value (r_ref ! 2) = Some 10 \<and> hex_value (r_ref ! 3) = Some 11 \<and>
      hex_value (r_out ! 2) = Some 10 \<and> hex_value (r_out ! 3) = Some 12)"
proof -
  have hl: "written sample = []" by (simp add: sample_def)
  have h1: "load_bytes (Ptr 0 0) 3 sample = Some [0x00, 0xAB, 0x7F] \<and>
      avail sample = True # [True] \<and>
      int (length ''file.c'') + int (length (show_int 7)) + 2 * int 3 + 4 \<le> INT_MAX"
    using sample_buffer_nat sample_avail by (simp add: show_int_7 INT_MAX_def)
  have h2: "load_bytes (Ptr 0 0) (nat 3) sample = Some [0x00, 0xAB, 0x7F] \<and>
      load_bytes (Ptr 2 0) (nat 3) sample = Some [0x00, 0xAC, 0x7F] \<and> (0 :: int) \<le> 3 \<and>
      avail sample = True # True # [] \<and>
      int (length ''kat'') + 2 * 3 + 28 \<le> INT_MAX"
    using sample_buffers(1,3,4) by (simp add: INT_MAX_def)
  from hex_rendering_of_buffers [THEN conjunct1, rule_format, OF h1]
  obtain r S where p:
    "print_buf (Ptr 0 0) 3 ''file.c'' 7 sample = Return () S"
    "written S = written sample @ [(Stdout, ''file.c'' @ '':'' @ show_int 7 @ '': '' @ r @ newline)]"
    "heap S = heap sample @ [Some (map of_char r @ [0])]"
    "length r = 2 * 3"
    and q: "\<forall>i<3. hex_value (r ! (2 * i)) = Some (unat ([0x00, 0xAB, 0x7F :: byte] ! i) div 16) \<and>
              hex_value (r ! (2 * i + 1)) = Some (unat ([0x00, 0xAB, 0x7F :: byte] ! i) mod 16)"
    by blast
  from hex_rendering_of_buffers [THEN conjunct2, rule_format, OF h2]
  obtain r_ref r_out T more where
    c: "(TestLib_compare_and_print ''kat'' (Ptr 0 0) (Ptr 2 0) 3 sample = Return () T \<and>
         heap T = heap sample @ [None, None]) \<or>
        (TestLib_compare_and_print ''kat'' (Ptr 0 0) (Ptr 2 0) 3 sample = Exit EXIT_FAILURE T \<and>
         heap T = heap sample @ [Some (map of_char r_out @ [0]), Some (map of_char r_ref @ [0])])"
    "written T = written sample @
        [(Stdout, ''[test] expected output '' @ ''kat'' @ '' is '' @ r_ref @ newline),
         (Stdout, ''[test] computed output '' @ ''kat'' @ '' is '' @ r_out @ newline), more]"
    "length r_ref = 2 * nat 3" "length r_out = 2 * nat 3"
    and d: "\<forall>i<nat 3.
       hex_value (r_ref ! (2 * i)) = Some (unat ([0x00, 0xAB, 0x7F :: byte] ! i) div 16) \<and>
       hex_value (r_ref ! (2 * i + 1)) = Some (unat ([0x00, 0xAB, 0x7F :: byte] ! i) mod 16) \<and>
       hex_value (r_out ! (2 * i)) = Some (unat ([0x00, 0xAC, 0x7F :: byte] ! i) div 16) \<and>
       hex_value (r_out ! (2 * i + 1)) = Some (unat ([0x00, 0xAC, 0x7F :: byte] ! i) mod 16)"
    by blast
  have e: "hex_value (r ! 0) = Some 0" "hex_value (r ! 1) = Some 0"
    "hex_value (r ! 2) = Some 10" "hex_value (r ! 3) = Some 11"
    "hex_value (r ! 4) = Some 7" "hex_value (r ! 5) = Some 15"
    using q [rule_format, of 0] q [rule_format, of 1] q [rule_format, of 2] by simp_all
  have first: "\<exists>r s'. print_buf (Ptr 0 0) 3 ''file.c'' 7 sample = Return () s' \<and>
      written s' = [(Stdout, ''file.c:7: '' @ r @ newline)] \<and>
      heap s' = heap sample @ [Some (map of_char r @ [0])] \<and> length r = 6 \<and>
      hex_value (r ! 0) = Some 0 \<and> hex_value (r ! 1) = Some 0 \<and>
      hex_value (r ! 2) = Some 10 \<and> hex_value (r ! 3) = Some 11 \<and>
      hex_value (r ! 4) = Some 7 \<and> hex_value (r ! 5) = Some 15"
    by (rule exI [of _ r], rule exI [of _ S]) (insert p e, simp add: show_int_7 hl)
  have f: "hex_value (r_ref ! 2) = Some 10" "hex_value (r_ref ! 3) = Some 11"
    "hex_value (r_out ! 2) = Some 10" "hex_value (r_out ! 3) = Some 12"
    using d [rule_format, of 1] by simp_all
  from c(1) sample_compare_differ
  have x: "TestLib_compare_and_print ''kat'' (Ptr 0 0) (Ptr 2 0) 3 sample = Exit EXIT_FAILURE T \<and>
         heap T = heap sample @ [Some (map of_char r_out @ [0]), Some (map of_char r_ref @ [0])]"
    by auto
  have second: "\<exists>r_ref r_out t' more.
      TestLib_compare_and_print ''kat'' (Ptr 0 0) (Ptr 2 0) 3 sample = Exit EXIT_FAILURE t' \<and>
      heap t' = heap sample @ [Some (map of_char r_out @ [0]), Some (map of_char r_ref @ [0])] \<and>
      written t' =
        [(Stdout, ''[test] expected output kat is '' @ r_ref @ newline),
         (Stdout, ''[test] computed output kat is '' @ r_out @ newline), more] \<and>
      length r_ref = 6 \<and> length r_out = 6 \<and>
      hex_value (r_ref ! 2) = Some 10 \<and> hex_value (r_ref ! 3) = Some 11 \<and>
      hex_value (r_out ! 2) = Some 10 \<and> hex_value (r_out ! 3) = Some 12"
    by (rule exI [of _ r_ref], rule exI [of _ r_out], rule exI [of _ T], rule exI [of _ more])
       (insert c(2-4) f x, simp add: hl)
  from first second show ?thesis by (rule conjI)
qed

section \<open>The caller's buffers\<close>

text \<open>
  C9. Let \<open>buf\<close>, \<open>reference\<close> and \<open>output\<close> point to readable bytes as in C7. When
  \<^verbatim>\<open>print_buf\<close> has returned, and when \<^verbatim>\<open>TestLib_compare_and_print\<close> has returned
  or has ended the process, every block that existed before the call holds what it held
  before, and the bytes read through the three pointers are those read before the call: the
  calls store into their own new blocks only.
\<close>

theorem caller_buffers_unchanged:
  "(load_bytes buf n s = Some bs \<and> print_buf buf n file line s = Return () s' \<longrightarrow>
      take (length (heap s)) (heap s') = heap s \<and> load_bytes buf n s' = Some bs) \<and>
   (load_bytes reference (nat m) t = Some ref \<and> load_bytes output (nat m) t = Some out \<and>
    0 \<le> m \<and>
    (TestLib_compare_and_print txt reference output m t = Return () t' \<or>
     TestLib_compare_and_print txt reference output m t = Exit code t') \<longrightarrow>
      take (length (heap t)) (heap t') = heap t \<and>
      load_bytes reference (nat m) t' = Some ref \<and>
      load_bytes output (nat m) t' = Some out)"
proof (intro conjI impI; elim conjE)
  assume a: "load_bytes buf n s = Some bs" "print_buf buf n file line s = Return () s'"
  from print_buf_returned [OF a] obtain x where hs: "heap s' = heap s @ [x]" by auto
  show "take (length (heap s)) (heap s') = heap s" using hs by simp
  show "load_bytes buf n s' = Some bs" using a(1) hs by (rule load_bytes_heap_append)
next
  assume a: "load_bytes reference (nat m) t = Some ref" "load_bytes output (nat m) t = Some out"
    "0 \<le> m"
    "TestLib_compare_and_print txt reference output m t = Return () t' \<or>
     TestLib_compare_and_print txt reference output m t = Exit code t'"
  from TestLib_compare_and_print_ended [OF a] obtain y z where ht: "heap t' = heap t @ [y, z]"
    by auto
  show "take (length (heap t)) (heap t') = heap t" using ht by simp
  show "load_bytes reference (nat m) t' = Some ref"
    using a(1) ht by (rule load_bytes_heap_append)
  show "load_bytes output (nat m) t' = Some out"
    using a(2) ht by (rule load_bytes_heap_append)
qed

theorem caller_buffers_unchanged_witness:
  "(\<exists>s'. print_buf (Ptr 0 0) 3 ''file.c'' 7 sample = Return () s' \<and>
      take 3 (heap s') = heap sample \<and>
      load_bytes (Ptr 0 0) 3 s' = Some [0x00, 0xAB, 0x7F]) \<and>
   (\<exists>t'. TestLib_compare_and_print ''kat'' (Ptr 0 0) (Ptr 2 0) 3 sample = Exit EXIT_FAILURE t' \<and>
      take 3 (heap t') = heap sample \<and>
      load_bytes (Ptr 0 0) 3 t' = Some [0x00, 0xAB, 0x7F] \<and>
      load_bytes (Ptr 2 0) 3 t' = Some [0x00, 0xAC, 0x7F])"
proof -
  let ?S = "sample\<lparr>heap := heap sample @ [Some (map of_char ''00ab7f'' @ [0])],
                  avail := [True],
                  written := [(Stdout, ''file.c:7: 00ab7f'' @ newline)]\<rparr>"
  let ?T = "fprintf Stderr (differ_msg ''kat'' 1)
        (rendered ''kat'' [0x00, 0xAB, 0x7F] [0x00, 0xAC, 0x7F] [] sample)"
  have l: "length (heap sample) = 3" by (simp add: sample_def)
  have h1: "load_bytes (Ptr 0 0) 3 sample = Some [0x00, 0xAB, 0x7F] \<and>
      print_buf (Ptr 0 0) 3 ''file.c'' 7 sample = Return () ?S"
    using sample_buffer_nat sample_print_buf by (rule conjI)
  have h2: "load_bytes (Ptr 0 0) (nat 3) sample = Some [0x00, 0xAB, 0x7F] \<and>
      load_bytes (Ptr 2 0) (nat 3) sample = Some [0x00, 0xAC, 0x7F] \<and> (0 :: int) \<le> 3 \<and>
      (TestLib_compare_and_print ''kat'' (Ptr 0 0) (Ptr 2 0) 3 sample = Return () ?T \<or>
       TestLib_compare_and_print ''kat'' (Ptr 0 0) (Ptr 2 0) 3 sample = Exit EXIT_FAILURE ?T)"
    using sample_buffers(1,3) sample_compare_differ by simp
  from caller_buffers_unchanged [THEN conjunct1, rule_format, OF h1]
  have a: "take 3 (heap ?S) = heap sample \<and> load_bytes (Ptr 0 0) 3 ?S = Some [0x00, 0xAB, 0x7F]"
    unfolding l by simp
  from caller_buffers_unchanged [THEN conjunct2, rule_format, OF h2]
  have b: "take 3 (heap ?T) = heap sample \<and>
         load_bytes (Ptr 0 0) 3 ?T = Some [0x00, 0xAB, 0x7F] \<and>
         load_bytes (Ptr 2 0) 3 ?T = Some [0x00, 0xAC, 0x7F]"
    unfolding l by simp
  from a b sample_print_buf sample_compare_differ show ?thesis by blast
qed

section \<open>Who frees what\<close>

text \<open>
  C6, as the claim states it, fails: after \<^verbatim>\<open>TestLib_unsafe_malloc\<close> has returned, the
  block it allocated is still allocated (it is the caller's from then on), and after
  \<^verbatim>\<open>print_buf\<close> has returned, its rendering buffer is still allocated too: the
  function has no call of \<^verbatim>\<open>free\<close>. In the sample process, blocks 0, 1 and 2 are
  allocated before either call, and block 3 is as well after it.
\<close>

theorem allocations_outlive_calls:
  "returned (TestLib_unsafe_malloc 4 sample) \<and>
   map_option live_blocks (state_of (TestLib_unsafe_malloc 4 sample)) = Some [0, 1, 2, 3] \<and>
   returned (print_buf (Ptr 0 0) 3 ''file.c'' 7 sample) \<and>
   map_option live_blocks (state_of (print_buf (Ptr 0 0) 3 ''file.c'' 7 sample)) = Some [0, 1, 2, 3] \<and>
   live_blocks sample = [0, 1, 2]"
proof -
  have a: "(3 :: nat) \<le> 2 ^ 30" by simp
  have m: "TestLib_unsafe_malloc 4 sample =
      Return (Ptr 3 0) (sample\<lparr>heap := heap sample @ [Some (map (junk sample) [0..<4])],
                               avail := [True]\<rparr>)"
    by (simp add: TestLib_unsafe_malloc_def malloc_def sample_def)
  have l: "length (heap sample) = 3" by (simp add: sample_def)
  show ?thesis
    unfolding m print_buf_run [OF sample_buffer_nat sample_avail a]
    by (simp add: returned_def state_of_def live_blocks_grown [where s = sample] sample_live l)
qed

text \<open>
  C6, amended. \<^verbatim>\<open>TestLib_compare_and_print\<close> frees both rendering buffers before it
  returns: whenever it returns, given \<open>n \<ge> 0\<close> readable bytes through each pointer, the
  blocks allocated after the call are those allocated before it.
  \<^verbatim>\<open>TestLib_unsafe_malloc\<close>, whenever it returns, returns a pointer to the start of a
  new block that is still allocated: the block passes to the caller.
\<close>

theorem compare_and_print_frees_unsafe_malloc_hands_over:
  "(load_bytes reference (nat n) s = Some ref \<and> load_bytes output (nat n) s = Some out \<and>
    0 \<le> n \<and> TestLib_compare_and_print txt reference output n s = Return () s' \<longrightarrow>
      live_blocks s' = live_blocks s) \<and>
   (TestLib_unsafe_malloc sz t = Return p t' \<longrightarrow>
      p = Ptr (length (heap t)) 0 \<and> live_blocks t' = live_blocks t @ [length (heap t)])"
proof (intro conjI impI; (elim conjE)?)
  assume a: "load_bytes reference (nat n) s = Some ref" "load_bytes output (nat n) s = Some out"
    "0 \<le> n" "TestLib_compare_and_print txt reference output n s = Return () s'"
  from a(4) have "TestLib_compare_and_print txt reference output n s = Return () s' \<or>
     TestLib_compare_and_print txt reference output n s = Exit 0 s'" by simp
  from TestLib_compare_and_print_ended [OF a(1-3) this] a(4)
  have "heap s' = heap s @ [None, None]" by auto
  then show "live_blocks s' = live_blocks s" by (rule live_blocks_freed)
next
  assume a: "TestLib_unsafe_malloc sz t = Return p t'"
  then have "p = Ptr (length (heap t)) 0 \<and> (\<exists>bs. heap t' = heap t @ [Some bs])"
    by (auto simp: TestLib_unsafe_malloc_def malloc_def split: list.splits if_splits)
  then show "p = Ptr (length (heap t)) 0"
    and "live_blocks t' = live_blocks t @ [length (heap t)]"
    by (auto simp: live_blocks_grown)
qed

theorem compare_and_print_frees_unsafe_malloc_hands_over_witness:
  "(\<exists>s'. TestLib_compare_and_print ''kat'' (Ptr 0 0) (Ptr (Suc 0) 0) 3 sample = Return () s' \<and>
         live_blocks s' = [0, 1, 2]) \<and>
   (\<exists>t'. TestLib_unsafe_malloc 4 sample = Return (Ptr 3 0) t' \<and> live_blocks t' = [0, 1, 2, 3])"
proof -
  let ?S = "(printf (''[test] kat is a success'' @ newline)
               (rendered ''kat'' [0x00, 0xAB, 0x7F] [0x00, 0xAB, 0x7F] [] sample))
       \<lparr>heap := heap sample @ [None, None]\<rparr>"
  let ?T = "sample\<lparr>heap := heap sample @ [Some [0xEE, 0xEE, 0xEE, 0xEE]], avail := [True]\<rparr>"
  have l: "length (heap sample) = 3" by (simp add: sample_def)
  have h1: "load_bytes (Ptr 0 0) (nat 3) sample = Some [0x00, 0xAB, 0x7F] \<and>
      load_bytes (Ptr (Suc 0) 0) (nat 3) sample = Some [0x00, 0xAB, 0x7F] \<and> (0 :: int) \<le> 3 \<and>
      TestLib_compare_and_print ''kat'' (Ptr 0 0) (Ptr (Suc 0) 0) 3 sample = Return () ?S"
    using sample_buffers(1,2) sample_compare_equal by simp
  from compare_and_print_frees_unsafe_malloc_hands_over [THEN conjunct1, rule_format, OF h1]
  have a: "live_blocks ?S = [0, 1, 2]" unfolding sample_live .
  from compare_and_print_frees_unsafe_malloc_hands_over
    [THEN conjunct2, rule_format, OF sample_unsafe_malloc]
  have b: "live_blocks ?T = [0, 1, 2, 3]" unfolding sample_live l by simp
  from a b sample_compare_equal sample_unsafe_malloc show ?thesis by blast
qed

section \<open>Allocation failure\<close>

text \<open>
  C4. For every size, \<^verbatim>\<open>TestLib_unsafe_malloc\<close> either returns a pointer to the start of
  a new block of that size, distinct from every block there was, having printed nothing; or,
  when \<^verbatim>\<open>malloc\<close> returns \<^verbatim>\<open>NULL\<close>, prints the warning and ends the process
  with \<^verbatim>\<open>EXIT_FAILURE\<close>. It never returns \<^verbatim>\<open>NULL\<close>.
\<close>

theorem TestLib_unsafe_malloc_never_returns_null:
  "((fst (malloc sz s) \<noteq> Null \<and>
     (\<exists>b bs s'. TestLib_unsafe_malloc sz s = Return (Ptr b 0) s' \<and>
        b = length (heap s) \<and> heap s' = heap s @ [Some bs] \<and> length bs = sz \<and>
        written s' = written s)) \<or>
    (fst (malloc sz s) = Null \<and>
     (\<exists>s'. TestLib_unsafe_malloc sz s = Exit EXIT_FAILURE s' \<and> heap s' = heap s \<and>
        written s' = written s @ [(Stdout, '' WARNING : malloc failed in tests !'' @ newline)]))) \<and>
   (\<forall>s'. TestLib_unsafe_malloc sz s \<noteq> Return Null s')"
  by (auto simp: TestLib_unsafe_malloc_def malloc_def printf_fits newline_def INT_MAX_def Let_def
      split: list.splits)

theorem TestLib_unsafe_malloc_never_returns_null_witness:
  "(\<exists>s'. TestLib_unsafe_malloc 4 sample = Return (Ptr 3 0) s' \<and>
      (\<exists>bs. heap s' = heap sample @ [Some bs] \<and> length bs = 4)) \<and>
   (\<exists>s'. TestLib_unsafe_malloc 4 idle = Exit EXIT_FAILURE s' \<and>
      written s' = [(Stdout, '' WARNING : malloc failed in tests !'' @ newline)])"
  using TestLib_unsafe_malloc_never_returns_null [of 4 sample]
    TestLib_unsafe_malloc_never_returns_null [of 4 idle]
  by (auto simp: malloc_def sample_def idle_def upt_rec numeral_eq_Suc)

text \<open>
  C5 does not hold of the code. \<^verbatim>\<open>print_buf\<close> and \<^verbatim>\<open>TestLib_compare_and_print\<close>
  use what \<^verbatim>\<open>malloc\<close> returns without a test: when a request fails, the next statement
  stores through the null pointer (the \<^verbatim>\<open>sprintf\<close> of the first byte, or, for an empty
  buffer, the store of the terminating NUL), which is undefined behaviour; no call of
  \<^verbatim>\<open>exit\<close> is reached. \<^verbatim>\<open>TestLib_unsafe_malloc\<close> in the same state does test
  and exits. Evaluated on the sample process with a failing allocator:
\<close>

theorem unchecked_malloc_is_undefined:
  "print_buf (Ptr 0 0) 3 ''file.c'' 7 (sample\<lparr>avail := [False]\<rparr>) = Undefined \<and>
   print_buf (Ptr 0 0) 0 ''file.c'' 7 (sample\<lparr>avail := [False]\<rparr>) = Undefined \<and>
   TestLib_compare_and_print ''kat'' (Ptr 0 0) (Ptr (Suc 0) 0) 3 (sample\<lparr>avail := [False, True]\<rparr>) = Undefined \<and>
   TestLib_compare_and_print ''kat'' (Ptr 0 0) (Ptr (Suc 0) 0) 3 (sample\<lparr>avail := [True, False]\<rparr>) = Undefined \<and>
   TestLib_unsafe_malloc 7 (sample\<lparr>avail := [False]\<rparr>) =
     Exit EXIT_FAILURE (sample\<lparr>avail := [],
        written := [(Stdout, '' WARNING : malloc failed in tests !'' @ newline)]\<rparr>)"
  by (simp add: print_buf_def TestLib_compare_and_print_def TestLib_unsafe_malloc_def malloc_def
      print_buf_loop.simps [of _ _ _ 0] compare_and_print_loop1.simps [of _ _ _ _ _ 0]
      to_size_t_def SIZE_MODULUS_def c_int_def INT_MAX_def INT_MIN_def
      load_def load_bytes_def ptr_add_def sprintf_02x_def store_def store_bytes_def sample_def
      printf_fits newline_def fmt_02x_def nth_append)

section \<open>TestLib_perr and TestLib_touch\<close>

text \<open>
  C10. \<^verbatim>\<open>TestLib_perr\<close> prints the error code in decimal, for every value and for 0 in
  particular, and returns; \<^verbatim>\<open>TestLib_touch\<close> returns and leaves the process as it
  was. Neither ends the process.
\<close>

theorem TestLib_perr_and_touch_return:
  "TestLib_perr err_code s =
     Return () (s\<lparr>written := written s @
        [(Stdout, ''Got error code '' @ show_nat (unat err_code) @ ''.'' @ newline)]\<rparr>) \<and>
   TestLib_perr 0 s =
     Return () (s\<lparr>written := written s @ [(Stdout, ''Got error code 0.'' @ newline)]\<rparr>) \<and>
   TestLib_touch x s = Return () s"
proof -
  have "int (length (''Got error code '' @ show_nat (unat err_code) @ ''.'' @ newline)) \<le> INT_MAX"
    using length_show_u32 [of err_code] by (simp add: newline_def INT_MAX_def)
  then have "TestLib_perr err_code s =
     Return () (s\<lparr>written := written s @
        [(Stdout, ''Got error code '' @ show_nat (unat err_code) @ ''.'' @ newline)]\<rparr>)"
    by (simp only: TestLib_perr_def printf_fits)
  moreover have "TestLib_perr 0 s =
     Return () (s\<lparr>written := written s @ [(Stdout, ''Got error code 0.'' @ newline)]\<rparr>)"
    by (simp add: TestLib_perr_def printf_fits newline_def INT_MAX_def show_nat.simps [of 0]
        digit_def)
  moreover have "TestLib_touch x s = Return () s"
    by (simp add: TestLib_touch_def)
  ultimately show ?thesis by (intro conjI)
qed

section \<open>The scalar checks\<close>





end
